theory Spec2Isabelle
  imports Main "HOL-Library.Word"
begin

section \<open>Text helpers\<close>

text \<open>
  JavaScript strings and PostgreSQL \<open>text\<close> values are modelled as \<open>string\<close>
  (one \<open>char\<close> per code unit; only code units below 256 are representable).
\<close>

definition code :: "char \<Rightarrow> nat" where
  "code c = of_char c"

definition newline :: char where
  "newline = CHR 0x0A"

text \<open>\<open>String.prototype.startsWith\<close>.\<close>

fun startsWith :: "string \<Rightarrow> string \<Rightarrow> bool" where
  "startsWith s [] = True"
| "startsWith [] (p # ps) = False"
| "startsWith (c # cs) (p # ps) = (c = p \<and> startsWith cs ps)"

text \<open>\<open>String.prototype.includes\<close>: the pattern occurs at some position.\<close>

fun str_includes :: "string \<Rightarrow> string \<Rightarrow> bool" where
  "str_includes [] p = (p = [])"
| "str_includes (c # cs) p = (startsWith (c # cs) p \<or> str_includes cs p)"

text \<open>\<open>String.prototype.endsWith\<close>.\<close>

definition endsWith :: "string \<Rightarrow> string \<Rightarrow> bool" where
  "endsWith s suffix = startsWith (rev s) (rev suffix)"

text \<open>
  White space of \<open>String.prototype.trim\<close> among the code units below 256: tab, line
  feed, vertical tab, form feed, carriage return, space and no-break space.
\<close>

definition is_space :: "char \<Rightarrow> bool" where
  "is_space c = (code c \<in> {9, 10, 11, 12, 13, 32, 160})"

definition trim :: "string \<Rightarrow> string" where
  "trim s = rev (dropWhile is_space (rev (dropWhile is_space s)))"

subsection \<open>Integers as decimal text\<close>

definition digit_char :: "nat \<Rightarrow> char" where
  "digit_char d = char_of (48 + d)"

definition is_digit :: "char \<Rightarrow> bool" where
  "is_digit c = (48 \<le> code c \<and> code c \<le> 57)"

function show_nat :: "nat \<Rightarrow> string" where
  "show_nat n = (if n < 10 then [digit_char n] else show_nat (n div 10) @ [digit_char (n mod 10)])"
  by pat_completeness auto
termination
  by (relation "measure (\<lambda>n. n)") auto

declare show_nat.simps [simp del]

text \<open>
  \<open>Number.prototype.toString\<close> on an integer (below \<open>10^21\<close> in magnitude), which is
  also how PostgreSQL writes an \<open>integer\<close> into a \<open>text\<close> column.
\<close>

definition toString :: "int \<Rightarrow> string" where
  "toString i = (if i < 0 then CHR ''-'' # show_nat (nat (- i)) else show_nat (nat i))"

fun digits_value :: "nat \<Rightarrow> string \<Rightarrow> nat option" where
  "digits_value acc [] = Some acc"
| "digits_value acc (c # cs) =
     (if is_digit c then digits_value (acc * 10 + (code c - 48)) cs else None)"

text \<open>
  The failures of a statement: a text that \<open>CAST\<close> cannot read as an integer, an integer
  outside the 32-bit range, and a right operand of \<open>ANY\<close> that is not an array.
\<close>

datatype db_error = InvalidIntegerSyntax string | IntegerOutOfRange | AnyOperandNotArray

definition signed_digits :: "string \<Rightarrow> int option" where
  "signed_digits t =
     (case t of
        [] \<Rightarrow> None
      | c # cs \<Rightarrow>
          if c = CHR ''-'' then (if cs = [] then None else map_option (\<lambda>n. - int n) (digits_value 0 cs))
          else if c = CHR ''+'' then (if cs = [] then None else map_option int (digits_value 0 cs))
          else map_option int (digits_value 0 t))"

text \<open>The blanks PostgreSQL skips around a number: space, tab, line feed, vertical tab,
  form feed and carriage return.\<close>

definition is_blank :: "char \<Rightarrow> bool" where
  "is_blank c = (code c \<in> {9, 10, 11, 12, 13, 32})"

definition strip_blanks :: "string \<Rightarrow> string" where
  "strip_blanks t = rev (dropWhile is_blank (rev (dropWhile is_blank t)))"

text \<open>
  \<open>CAST(t AS INTEGER)\<close> on a \<open>text\<close> value: blanks, an optional sign and decimal digits,
  blanks, in the range of a 32-bit signed integer; anything else makes the statement fail.
  (The non-decimal forms PostgreSQL also reads are not modelled; the code never writes
  them.)
\<close>

definition cast_integer :: "string \<Rightarrow> db_error + int" where
  "cast_integer t =
     (case signed_digits (strip_blanks t) of
        None \<Rightarrow> Inl (InvalidIntegerSyntax t)
      | Some i \<Rightarrow> if - 2147483648 \<le> i \<and> i \<le> 2147483647 then Inr i else Inl IntegerOutOfRange)"

section \<open>The memory store (lib/db/memory.ts)\<close>

type_synonym uuid = string
type_synonym timestamp = nat

text \<open>
  The \<open>metadata\<close> column holds a JSON object; \<open>MIso t\<close> stands for
  \<open>new Date(t).toISOString()\<close>.
\<close>

datatype meta_value = MStr string | MIso timestamp

type_synonym metadata = "(string \<times> meta_value) list"

text \<open>
  A row of table \<open>Memory\<close> (migration 0008): \<open>importance\<close> and \<open>accessCount\<close> are
  \<open>text\<close> columns.
\<close>

record Memory =
  mem_id :: uuid
  userId :: uuid
  chatId :: "uuid option"
  category :: string
  key :: string
  mem_value :: string
  importance :: string
  createdAt :: timestamp
  updatedAt :: timestamp
  lastAccessedAt :: timestamp
  accessCount :: string
  metadata :: "metadata option"

record CreateMemoryParams =
  p_userId :: uuid
  p_chatId :: "uuid option"
  p_category :: string
  p_key :: string
  p_value :: string
  p_importance :: "int option"
  p_metadata :: "metadata option"

text \<open>
  \<open>UPDATE ... SET ... WHERE P RETURNING *\<close>: every row satisfying \<open>P\<close> is rewritten by
  \<open>f\<close>; if \<open>f\<close> fails on one of them the statement fails and nothing is changed.
  The result is the list of rewritten rows and the new table.
\<close>

fun sql_update ::
  "(Memory \<Rightarrow> bool) \<Rightarrow> (Memory \<Rightarrow> db_error + Memory) \<Rightarrow> Memory list
    \<Rightarrow> db_error + (Memory list \<times> Memory list)" where
  "sql_update P f [] = Inr ([], [])"
| "sql_update P f (r # rs) =
     (if P r then
        (case f r of
           Inl e \<Rightarrow> Inl e
         | Inr r' \<Rightarrow>
             (case sql_update P f rs of
                Inl e \<Rightarrow> Inl e
              | Inr (ret, rs') \<Rightarrow> Inr (r' # ret, r' # rs')))
      else
        (case sql_update P f rs of
           Inl e \<Rightarrow> Inl e
         | Inr (ret, rs') \<Rightarrow> Inr (ret, r # rs')))"

text \<open>\<open>CAST(accessCount AS INTEGER) + 1\<close>, stored back into the text column.\<close>

definition bump_accessCount :: "string \<Rightarrow> db_error + string" where
  "bump_accessCount t =
     (case cast_integer t of
        Inl e \<Rightarrow> Inl e
      | Inr n \<Rightarrow> if n + 1 > 2147483647 then Inl IntegerOutOfRange else Inr (toString (n + 1)))"

text \<open>\<open>xs[0]\<close>: \<open>None\<close> is JavaScript's \<open>undefined\<close>.\<close>

fun first_row :: "'a list \<Rightarrow> 'a option" where
  "first_row [] = None"
| "first_row (x # xs) = Some x"

text \<open>
  The \<open>SET\<close> clause of the update branch of \<open>saveMemory\<close>. The object spread
  \<open>...(chatId && { chatId })\<close> sets \<open>chatId\<close> only for a non-empty string; a field
  whose value is \<open>undefined\<close> (\<open>metadata\<close> when the caller gives none) is left out of
  the statement by the query builder, so the column keeps its value.
\<close>

definition save_set :: "timestamp \<Rightarrow> CreateMemoryParams \<Rightarrow> int \<Rightarrow> Memory \<Rightarrow> db_error + Memory" where
  "save_set now params imp r =
     (case bump_accessCount (accessCount r) of
        Inl e \<Rightarrow> Inl e
      | Inr cnt \<Rightarrow>
          Inr (r\<lparr> mem_value := p_value params,
                 importance := toString imp,
                 updatedAt := now,
                 lastAccessedAt := now,
                 accessCount := cnt,
                 metadata := (case p_metadata params of None \<Rightarrow> metadata r | Some md \<Rightarrow> Some md),
                 chatId := (case p_chatId params of
                              None \<Rightarrow> chatId r
                            | Some c \<Rightarrow> if c = [] then chatId r else Some c) \<rparr>))"

text \<open>
  \<open>saveMemory\<close>: \<open>now\<close> is \<open>new Date()\<close> and \<open>newId\<close> the identifier the database
  generates for an inserted row. The result is the returned row and the new table.
\<close>

definition saveMemory ::
  "timestamp \<Rightarrow> uuid \<Rightarrow> CreateMemoryParams \<Rightarrow> Memory list
    \<Rightarrow> db_error + (Memory option \<times> Memory list)" where
  "saveMemory now newId params rows =
     (let imp = (case p_importance params of None \<Rightarrow> 5 | Some i \<Rightarrow> i);
          existing = take 1 (filter (\<lambda>m. userId m = p_userId params \<and> key m = p_key params) rows)
      in case existing of
           e # _ \<Rightarrow>
             (case sql_update (\<lambda>m. mem_id m = mem_id e) (save_set now params imp) rows of
                Inl err \<Rightarrow> Inl err
              | Inr (updated, rows') \<Rightarrow> Inr (first_row updated, rows'))
         | [] \<Rightarrow>
             (let created =
                \<lparr> mem_id = newId,
                  userId = p_userId params,
                  chatId = (case p_chatId params of
                              None \<Rightarrow> None
                            | Some c \<Rightarrow> if c = [] then None else Some c),
                  category = p_category params,
                  key = p_key params,
                  mem_value = p_value params,
                  importance = toString imp,
                  createdAt = now,
                  updatedAt = now,
                  lastAccessedAt = now,
                  accessCount = ''1'',
                  metadata = p_metadata params \<rparr>
              in Inr (Some created, rows @ [created])))"

text \<open>A sequence of \<open>saveMemory\<close> calls; a call that throws leaves the table as it was.\<close>

fun saveMemory_calls ::
  "(timestamp \<times> uuid \<times> CreateMemoryParams) list \<Rightarrow> Memory list \<Rightarrow> Memory list" where
  "saveMemory_calls [] rows = rows"
| "saveMemory_calls ((now, newId, params) # cs) rows =
     (case saveMemory now newId params rows of
        Inl e \<Rightarrow> saveMemory_calls cs rows
      | Inr (_, rows') \<Rightarrow> saveMemory_calls cs rows')"

text \<open>The table holds at most one row per \<open>(userId, key)\<close> pair.\<close>

definition unique_keys :: "Memory list \<Rightarrow> bool" where
  "unique_keys rows = distinct (map (\<lambda>m. (userId m, key m)) rows)"

definition count_key :: "uuid \<Rightarrow> string \<Rightarrow> Memory list \<Rightarrow> nat" where
  "count_key u k rows = length (filter (\<lambda>m. userId m = u \<and> key m = k) rows)"

subsection \<open>getMemoriesByUserId\<close>

record MemoryOptions =
  o_category :: "string option"
  o_limit :: "nat option"
  o_minImportance :: "int option"

text \<open>
  The \<open>WHERE\<close> clause: \<open>userId\<close> always; \<open>category\<close> and \<open>minImportance\<close> only when
  the option is truthy (a non-empty string, a non-zero number). The conjuncts are
  evaluated left to right, and a failing \<open>CAST\<close> makes the query fail.
\<close>

definition memories_where :: "uuid \<Rightarrow> MemoryOptions option \<Rightarrow> Memory \<Rightarrow> db_error + bool" where
  "memories_where u opts r =
     (if userId r \<noteq> u then Inr False
      else if (case opts of None \<Rightarrow> False
               | Some os \<Rightarrow> (case o_category os of None \<Rightarrow> False
                            | Some c \<Rightarrow> c \<noteq> [] \<and> category r \<noteq> c)) then Inr False
      else (case opts of
              None \<Rightarrow> Inr True
            | Some os \<Rightarrow>
                (case o_minImportance os of
                   None \<Rightarrow> Inr True
                 | Some n \<Rightarrow>
                     if n = 0 then Inr True
                     else (case cast_integer (importance r) of
                             Inl e \<Rightarrow> Inl e
                           | Inr i \<Rightarrow> Inr (n \<le> i)))))"

fun sql_select :: "(Memory \<Rightarrow> db_error + bool) \<Rightarrow> Memory list \<Rightarrow> db_error + Memory list" where
  "sql_select w [] = Inr []"
| "sql_select w (r # rs) =
     (case w r of
        Inl e \<Rightarrow> Inl e
      | Inr b \<Rightarrow>
          (case sql_select w rs of
             Inl e \<Rightarrow> Inl e
           | Inr out \<Rightarrow> Inr (if b then r # out else out)))"

text \<open>
  Comparison of two \<open>text\<close> values, character by character (a shorter prefix is
  smaller): the order \<open>ORDER BY\<close> uses on a \<open>text\<close> column.
\<close>

fun text_less :: "string \<Rightarrow> string \<Rightarrow> bool" where
  "text_less [] [] = False"
| "text_less [] (y # ys) = True"
| "text_less (x # xs) [] = False"
| "text_less (x # xs) (y # ys) = (code x < code y \<or> (x = y \<and> text_less xs ys))"

text \<open>\<open>ORDER BY importance DESC, updatedAt DESC\<close>: does row \<open>a\<close> go before row \<open>b\<close>?\<close>

definition comes_before :: "Memory \<Rightarrow> Memory \<Rightarrow> bool" where
  "comes_before a b =
     (text_less (importance b) (importance a)
      \<or> (importance a = importance b \<and> updatedAt b \<le> updatedAt a))"

fun insert_row :: "Memory \<Rightarrow> Memory list \<Rightarrow> Memory list" where
  "insert_row r [] = [r]"
| "insert_row r (x # xs) = (if comes_before r x then r # x # xs else x # insert_row r xs)"

definition order_by :: "Memory list \<Rightarrow> Memory list" where
  "order_by rows = foldr insert_row rows []"

text \<open>\<open>options?.limit || 50\<close>.\<close>

definition limit_of :: "MemoryOptions option \<Rightarrow> nat" where
  "limit_of opts =
     (case opts of
        None \<Rightarrow> 50
      | Some os \<Rightarrow> (case o_limit os of None \<Rightarrow> 50 | Some n \<Rightarrow> if n = 0 then 50 else n))"

text \<open>The \<open>SELECT\<close> of \<open>getMemoriesByUserId\<close>: \<open>WHERE\<close>, \<open>ORDER BY\<close>, \<open>LIMIT\<close>.\<close>

definition select_memories :: "uuid \<Rightarrow> MemoryOptions option \<Rightarrow> Memory list \<Rightarrow> db_error + Memory list" where
  "select_memories u opts rows =
     (case sql_select (memories_where u opts) rows of
        Inl e \<Rightarrow> Inl e
      | Inr selected \<Rightarrow> Inr (take (limit_of opts) (order_by selected)))"

text \<open>
  \<open>getMemoriesByUserId\<close>. When the \<open>SELECT\<close> returns rows, the access tracking runs
  \<open>UPDATE ... WHERE id = ANY(${ids})\<close> with \<open>ids\<close> a JavaScript array. The query
  builder writes an array placed in an \<open>sql\<close> template as a parenthesised list of
  parameters, \<open>ANY(($2, $3))\<close>, which is not an array: PostgreSQL rejects the statement,
  nothing is updated and the call throws. Only an empty result is returned. The result
  is the returned rows and the table.
\<close>

definition getMemoriesByUserId ::
  "uuid \<Rightarrow> MemoryOptions option \<Rightarrow> Memory list
    \<Rightarrow> db_error + (Memory list \<times> Memory list)" where
  "getMemoriesByUserId u opts rows =
     (case select_memories u opts rows of
        Inl e \<Rightarrow> Inl e
      | Inr results \<Rightarrow>
          if results \<noteq> [] then Inl AnyOperandNotArray else Inr (results, rows))"

subsection \<open>formatMemoriesForContext\<close>

datatype js_error = TypeError

text \<open>
  The accumulator of \<open>reduce\<close> is a plain object, modelled as the list of its own
  properties in creation order. A plain object also answers for the properties it
  inherits from \<open>Object.prototype\<close>: for these names \<open>acc[cat]\<close> is truthy without being an
  array, and \<open>acc[cat].push\<close> is not a function.
\<close>

definition object_prototype_keys :: "string list" where
  "object_prototype_keys =
     [''constructor'', ''toString'', ''toLocaleString'', ''valueOf'', ''hasOwnProperty'',
      ''isPrototypeOf'', ''propertyIsEnumerable'', ''__proto__'', ''__defineGetter__'',
      ''__defineSetter__'', ''__lookupGetter__'', ''__lookupSetter__'']"

text \<open>\<open>mem.category || "context"\<close>.\<close>

definition category_of :: "Memory \<Rightarrow> string" where
  "category_of mem = (if category mem = [] then ''context'' else category mem)"

fun push_group :: "string \<Rightarrow> Memory \<Rightarrow> (string \<times> Memory list) list \<Rightarrow> (string \<times> Memory list) list" where
  "push_group cat mem [] = [(cat, [mem])]"
| "push_group cat mem ((c, items) # rest) =
     (if c = cat then (c, items @ [mem]) # rest else (c, items) # push_group cat mem rest)"

fun group_memories ::
  "(string \<times> Memory list) list \<Rightarrow> Memory list \<Rightarrow> js_error + (string \<times> Memory list) list" where
  "group_memories acc [] = Inr acc"
| "group_memories acc (mem # mems) =
     (if category_of mem \<in> set object_prototype_keys \<and> category_of mem \<notin> set (map fst acc)
      then Inl TypeError
      else group_memories (push_group (category_of mem) mem acc) mems)"

text \<open>
  \<open>Object.entries\<close>: the properties whose name is an array index (the decimal text of
  an integer below \<open>2^32 - 1\<close>) come first, in ascending numeric order, then the
  others in creation order.
\<close>

definition array_index :: "string \<Rightarrow> nat option" where
  "array_index k =
     (case digits_value 0 k of
        None \<Rightarrow> None
      | Some n \<Rightarrow> if k \<noteq> [] \<and> k = show_nat n \<and> n < 4294967295 then Some n else None)"

fun insert_index :: "nat \<times> 'a \<Rightarrow> (nat \<times> 'a) list \<Rightarrow> (nat \<times> 'a) list" where
  "insert_index e [] = [e]"
| "insert_index e (x # xs) = (if fst e \<le> fst x then e # x # xs else x # insert_index e xs)"

definition object_entries :: "(string \<times> 'a) list \<Rightarrow> (string \<times> 'a) list" where
  "object_entries props =
     map snd (foldr insert_index
                (List.map_filter (\<lambda>(k, v). map_option (\<lambda>n. (n, (k, v))) (array_index k)) props) [])
     @ filter (\<lambda>(k, v). array_index k = None) props"

definition categoryTitles :: "(string \<times> string) list" where
  "categoryTitles =
     [(''preference'', ''Preferences''),
      (''personal'', ''Personal Information''),
      (''context'', ''Context & Background''),
      (''fact'', ''Known Facts'')]"

text \<open>\<open>categoryTitles[category] || category\<close>.\<close>

definition title_of :: "string \<Rightarrow> string" where
  "title_of cat = (case map_of categoryTitles cat of Some t \<Rightarrow> t | None \<Rightarrow> cat)"

definition format_item :: "Memory \<Rightarrow> string" where
  "format_item item = ''- '' @ key item @ '': '' @ mem_value item @ [newline]"

definition format_section :: "string \<times> Memory list \<Rightarrow> string" where
  "format_section e =
     ''### '' @ title_of (fst e) @ [newline] @ concat (map format_item (snd e)) @ [newline]"

definition formatMemoriesForContext :: "Memory list \<Rightarrow> js_error + string" where
  "formatMemoriesForContext memories =
     (if memories = [] then Inr []
      else (case group_memories [] memories of
              Inl e \<Rightarrow> Inl e
            | Inr grouped \<Rightarrow>
                Inr (trim (''## User Memory'' @ [newline, newline]
                           @ concat (map format_section (object_entries grouped))))))"

text \<open>
  The members of a list in the order of their first occurrence (\<open>remdups\<close> keeps the
  last occurrence of each member).
\<close>

definition first_occurrences :: "'a list \<Rightarrow> 'a list" where
  "first_occurrences xs = rev (remdups (rev xs))"

text \<open>
  Grouping as a specification: one group for each category, in the order of first
  occurrence, holding the memories of that category in their order.
\<close>

definition groups_of :: "Memory list \<Rightarrow> (string \<times> Memory list) list" where
  "groups_of mems =
     map (\<lambda>c. (c, filter (\<lambda>m. category_of m = c) mems)) (first_occurrences (map category_of mems))"

subsection \<open>extractMemoriesFromConversation\<close>

text \<open>
  The four regular expressions, each as the function from the message to capture group 1
  of its first match. Under the \<open>i\<close> flag a literal character of the pattern matches its
  upper and lower case; all literals here are ASCII.
\<close>

definition ascii_upper :: "char \<Rightarrow> char" where
  "ascii_upper c = (if 97 \<le> code c \<and> code c \<le> 122 then char_of (code c - 32) else c)"

definition is_word_char :: "char \<Rightarrow> bool" where
  "is_word_char c =
     ((97 \<le> code c \<and> code c \<le> 122) \<or> (65 \<le> code c \<and> code c \<le> 90)
      \<or> (48 \<le> code c \<and> code c \<le> 57) \<or> code c = 95)"

definition is_line_terminator :: "char \<Rightarrow> bool" where
  "is_line_terminator c = (code c = 10 \<or> code c = 13)"

text \<open>A literal matched at the start of the input, ignoring case: what follows it.\<close>

fun literal_i :: "string \<Rightarrow> string \<Rightarrow> string option" where
  "literal_i [] s = Some s"
| "literal_i (p # ps) [] = None"
| "literal_i (p # ps) (c # cs) =
     (if ascii_upper c = ascii_upper p then literal_i ps cs else None)"

text \<open>A greedy \<open>(\<dots>+)\<close> at the end of a pattern: the longest non-empty run.\<close>

definition capture_plus :: "(char \<Rightarrow> bool) \<Rightarrow> string \<Rightarrow> string option" where
  "capture_plus ok s = (if takeWhile ok s = [] then None else Some (takeWhile ok s))"

text \<open>The first position of the input at which the anchored matcher succeeds.\<close>

fun first_match :: "(string \<Rightarrow> string option) \<Rightarrow> string \<Rightarrow> string option" where
  "first_match m [] = m []"
| "first_match m (c # cs) = (case m (c # cs) of Some g \<Rightarrow> Some g | None \<Rightarrow> first_match m cs)"

text \<open>\<open>/<literal>(\w+)/i\<close>.\<close>

definition regex_word :: "string \<Rightarrow> string \<Rightarrow> string option" where
  "regex_word lit msg =
     first_match (\<lambda>s. case literal_i lit s of
                        None \<Rightarrow> None
                      | Some rest \<Rightarrow> capture_plus is_word_char rest) msg"

text \<open>
  \<open>/I work as (?:a |an )?(.+)/i\<close>: the optional group is tried with \<open>a \<close>, then with
  \<open>an \<close>, then skipped.
\<close>

definition regex_job :: "string \<Rightarrow> string option" where
  "regex_job msg =
     first_match (\<lambda>s. case literal_i ''I work as '' s of
                        None \<Rightarrow> None
                      | Some rest \<Rightarrow>
                          (case Option.bind (literal_i ''a '' rest)
                                  (capture_plus (\<lambda>c. \<not> is_line_terminator c)) of
                             Some g \<Rightarrow> Some g
                           | None \<Rightarrow>
                               (case Option.bind (literal_i ''an '' rest)
                                       (capture_plus (\<lambda>c. \<not> is_line_terminator c)) of
                                  Some g \<Rightarrow> Some g
                                | None \<Rightarrow> capture_plus (\<lambda>c. \<not> is_line_terminator c) rest))) msg"

record pattern =
  regex :: "string \<Rightarrow> string option"
  pat_key :: string
  pat_category :: string

definition patterns :: "pattern list" where
  "patterns =
     [\<lparr> regex = regex_word ''my name is '', pat_key = ''name'', pat_category = ''personal'' \<rparr>,
      \<lparr> regex = regex_word ''I live in '', pat_key = ''location'', pat_category = ''personal'' \<rparr>,
      \<lparr> regex = regex_job, pat_key = ''job'', pat_category = ''personal'' \<rparr>,
      \<lparr> regex = regex_word ''I prefer '', pat_key = ''preference'', pat_category = ''preference'' \<rparr>]"

record ExtractParams =
  x_userId :: uuid
  x_chatId :: uuid
  x_userMessage :: string
  x_aiResponse :: string

text \<open>The argument of the \<open>saveMemory\<close> call made for a matching rule at time \<open>now\<close>.\<close>

definition rule_write :: "ExtractParams \<Rightarrow> timestamp \<Rightarrow> pattern \<Rightarrow> string \<Rightarrow> CreateMemoryParams" where
  "rule_write params now pat captured =
     \<lparr> p_userId = x_userId params,
       p_chatId = Some (x_chatId params),
       p_category = pat_category pat,
       p_key = pat_key pat,
       p_value = captured,
       p_importance = Some 7,
       p_metadata = Some [(''extractedFrom'', MStr ''conversation''), (''timestamp'', MIso now)] \<rparr>"

text \<open>
  The loop over the rules. \<open>save\<close> is the write path (\<open>saveMemory\<close> on the store \<open>st\<close>):
  it returns the saved row or throws \<open>Inl e\<close>. The \<open>n\<close>-th rule reads the time \<open>clock n\<close>.
  The state of the loop is the list \<open>savedMemories\<close>, the errors written to the console
  and the store.
\<close>

fun extract_rules ::
  "(CreateMemoryParams \<Rightarrow> 's \<Rightarrow> ('e + 'm) \<times> 's) \<Rightarrow> (nat \<Rightarrow> timestamp) \<Rightarrow> ExtractParams
    \<Rightarrow> nat \<Rightarrow> pattern list \<Rightarrow> 'm list \<times> 'e list \<times> 's \<Rightarrow> 'm list \<times> 'e list \<times> 's" where
  "extract_rules save clock params n [] acc = acc"
| "extract_rules save clock params n (pat # pats) (saved, console, st) =
     (case regex pat (x_userMessage params) of
        None \<Rightarrow> extract_rules save clock params (Suc n) pats (saved, console, st)
      | Some captured \<Rightarrow>
          if captured = [] then extract_rules save clock params (Suc n) pats (saved, console, st)
          else
            (case save (rule_write params (clock n) pat captured) st of
               (Inr mem, st') \<Rightarrow>
                 extract_rules save clock params (Suc n) pats (saved @ [mem], console, st')
             | (Inl error, st') \<Rightarrow>
                 extract_rules save clock params (Suc n) pats (saved, console @ [error], st')))"

definition extractMemoriesFromConversation ::
  "(CreateMemoryParams \<Rightarrow> 's \<Rightarrow> ('e + 'm) \<times> 's) \<Rightarrow> (nat \<Rightarrow> timestamp) \<Rightarrow> ExtractParams
    \<Rightarrow> 's \<Rightarrow> 'm list \<times> 'e list \<times> 's" where
  "extractMemoriesFromConversation save clock params st =
     extract_rules save clock params 0 patterns ([], [], st)"

text \<open>
  The write requests of a turn: one for each rule that matches the user message, in the
  order of the rules, the first rule being number \<open>n\<close>.
\<close>

fun rule_writes_from ::
  "(nat \<Rightarrow> timestamp) \<Rightarrow> ExtractParams \<Rightarrow> nat \<Rightarrow> pattern list \<Rightarrow> CreateMemoryParams list" where
  "rule_writes_from clock params n [] = []"
| "rule_writes_from clock params n (pat # pats) =
     (case regex pat (x_userMessage params) of
        None \<Rightarrow> []
      | Some captured \<Rightarrow> if captured = [] then [] else [rule_write params (clock n) pat captured])
     @ rule_writes_from clock params (Suc n) pats"

definition rule_writes :: "(nat \<Rightarrow> timestamp) \<Rightarrow> ExtractParams \<Rightarrow> CreateMemoryParams list" where
  "rule_writes clock params = rule_writes_from clock params 0 patterns"

definition rule_matches :: "string \<Rightarrow> pattern \<Rightarrow> bool" where
  "rule_matches msg pat = (case regex pat msg of None \<Rightarrow> False | Some captured \<Rightarrow> captured \<noteq> [])"

text \<open>
  The write path on the memory table: the \<open>k\<close>-th call of a run happens at time
  \<open>nows k\<close> and an inserted row gets the identifier \<open>ids k\<close>.
\<close>

definition saveMemory_on ::
  "(nat \<Rightarrow> timestamp) \<Rightarrow> (nat \<Rightarrow> uuid) \<Rightarrow> CreateMemoryParams \<Rightarrow> nat \<times> Memory list
    \<Rightarrow> (db_error + Memory option) \<times> (nat \<times> Memory list)" where
  "saveMemory_on nows ids params st =
     (case saveMemory (nows (fst st)) (ids (fst st)) params (snd st) of
        Inl e \<Rightarrow> (Inl e, (Suc (fst st), snd st))
      | Inr (mem, rows') \<Rightarrow> (Inr mem, (Suc (fst st), rows')))"

section \<open>The part assembler (stage 1)\<close>

text \<open>
  Modelled from the spec: the data of the part assembler (sections 3 and 7). The code
  that assembles the parts of a turn, \<open>components/multimodal-input.tsx\<close> and the first
  pass of \<open>app/(chat)/api/chat/route.ts\<close>, is not among the sources; only notes quote
  fragments of earlier versions of it.
\<close>

datatype error_kind =
    UnsupportedMediaType
  | CorruptDocument
  | PasswordProtectedDocument
  | EncryptedDocument
  | ExtractionFailed string
  | DecodingFailed
  | MissingInlineImageData
  | OversizeArtifact

text \<open>
  Modelled from the spec: the content extracted from one artifact (section 3, of the
  missing assembler's input): a text, an inline image or a failure.
\<close>

datatype extracted_content = ExtractedText string | InlineImage string | Failure error_kind

text \<open>
  Modelled from the spec: a raw submitted part (section 4.5, input of the missing
  assembler): free text, or the artifact of a given name with its extracted content.
\<close>

datatype raw_part = RawText string | RawArtifact string extracted_content

text \<open>
  Modelled from the spec: a part of the turn (section 3, output of the missing
  assembler): text, an image by its data URI, or the text of a document with the name of
  its source.
\<close>

datatype turn_part = TextPart string | ImagePart string | DocumentTextPart string string

text \<open>
  Modelled from the spec: the truncation policy of the missing assembler (section 4.5):
  a document text longer than the ceiling is truncated to the ceiling and the visible
  marker is appended.
\<close>

definition truncation_marker :: string where
  "truncation_marker = ''[... content truncated ...]''"

definition truncate_text :: "nat \<Rightarrow> string \<Rightarrow> string" where
  "truncate_text ceiling t = (if ceiling < length t then take ceiling t @ truncation_marker else t)"

text \<open>
  Modelled from the spec: the parts the missing assembler derives from the artifacts
  (sections 4.5 and 7), one for each artifact in submission order; an artifact whose
  extraction failed rejects the whole turn with its reason.
\<close>

fun artifact_parts :: "nat \<Rightarrow> raw_part list \<Rightarrow> error_kind + turn_part list" where
  "artifact_parts ceiling [] = Inr []"
| "artifact_parts ceiling (RawText t # raw) = artifact_parts ceiling raw"
| "artifact_parts ceiling (RawArtifact name (Failure reason) # raw) = Inl reason"
| "artifact_parts ceiling (RawArtifact name (ExtractedText t) # raw) =
     (case artifact_parts ceiling raw of
        Inl reason \<Rightarrow> Inl reason
      | Inr parts \<Rightarrow> Inr (DocumentTextPart name (truncate_text ceiling t) # parts))"
| "artifact_parts ceiling (RawArtifact name (InlineImage uri) # raw) =
     (case artifact_parts ceiling raw of
        Inl reason \<Rightarrow> Inl reason
      | Inr parts \<Rightarrow> Inr (ImagePart uri # parts))"

text \<open>
  Modelled from the spec: the parts the missing assembler makes of the text inputs
  (section 4.5), one for each, verbatim.
\<close>

fun text_parts :: "raw_part list \<Rightarrow> turn_part list" where
  "text_parts [] = []"
| "text_parts (RawText t # raw) = TextPart t # text_parts raw"
| "text_parts (RawArtifact name c # raw) = text_parts raw"

text \<open>
  Modelled from the spec: the missing assembler (sections 4.5 and 5): the parts
  derived from the artifacts, in submission order, then the free text; \<open>Inl\<close> is the
  rejection of the turn.
\<close>

definition assemble_parts :: "nat \<Rightarrow> raw_part list \<Rightarrow> error_kind + turn_part list" where
  "assemble_parts ceiling raw =
     (case artifact_parts ceiling raw of
        Inl reason \<Rightarrow> Inl reason
      | Inr parts \<Rightarrow> Inr (parts @ text_parts raw))"

text \<open>
  Modelled from the spec: how the missing assembler renders a document part
  (section 4.5): \<open>[File: <name>]\<close>, an empty line, the text.
\<close>

definition render_document :: "string \<Rightarrow> string \<Rightarrow> string" where
  "render_document name t = ''[File: '' @ name @ '']'' @ [newline, newline] @ t"

text \<open>
  Modelled from the spec: which parts of a turn are derived from an attachment
  (section 5): the images and the document texts, not the free text.
\<close>

definition attachment_derived :: "turn_part \<Rightarrow> bool" where
  "attachment_derived p = (case p of TextPart t \<Rightarrow> False | ImagePart uri \<Rightarrow> True | DocumentTextPart name t \<Rightarrow> True)"

text \<open>
  Modelled from the spec: which raw parts are free text (section 4.5).
\<close>

definition is_raw_text :: "raw_part \<Rightarrow> bool" where
  "is_raw_text r = (case r of RawText t \<Rightarrow> True | RawArtifact name c \<Rightarrow> False)"

section \<open>The provider constraint adapter (stage 2)\<close>






section \<open>Text extraction (lib/utils/file-parser.ts)\<close>

type_synonym buffer = "8 word list"

text \<open>
  What \<open>pdfParse(buffer)\<close> does: it throws an error, whose \<open>message\<close> may be missing,
  or returns data whose \<open>text\<close> may be missing.
\<close>

datatype pdf_outcome = Threw "string option" | Parsed "string option"

definition no_text_placeholder :: string where
  "no_text_placeholder =
     ''[This PDF appears to be empty or contains only images. No text could be extracted.]''"

text \<open>The message of the error thrown by the \<open>catch\<close> block.\<close>

definition pdf_error_message :: "string option \<Rightarrow> string" where
  "pdf_error_message message =
     (case message of
        None \<Rightarrow> ''Failed to extract text from PDF''
      | Some m \<Rightarrow>
          if str_includes m ''Invalid PDF'' then ''Invalid or corrupted PDF file''
          else if str_includes m ''password'' then ''PDF is password-protected''
          else if str_includes m ''encrypted'' then ''PDF is encrypted''
          else if m \<noteq> [] then ''PDF parsing error: '' @ m
          else ''Failed to extract text from PDF'')"

text \<open>\<open>Inl\<close> is the message of the thrown \<open>Error\<close>, \<open>Inr\<close> the returned text.\<close>

definition extractTextFromPDF :: "(buffer \<Rightarrow> pdf_outcome) \<Rightarrow> buffer \<Rightarrow> string + string" where
  "extractTextFromPDF pdfParse buf =
     (case pdfParse buf of
        Threw message \<Rightarrow> Inl (pdf_error_message message)
      | Parsed fullText \<Rightarrow>
          (case fullText of
             None \<Rightarrow> Inr no_text_placeholder
           | Some t \<Rightarrow> if t = [] \<or> length (trim t) = 0 then Inr no_text_placeholder else Inr (trim t)))"

subsection \<open>Plain text: Buffer.toString('utf-8')\<close>











section \<open>The upload route (app/(chat)/api/files/upload/route.ts)\<close>

text \<open>The symbol U+2705 that starts the lines, as the three bytes written for it.\<close>

definition check_mark :: string where
  "check_mark = [CHR 0xE2, CHR 0x9C, CHR 0x85]"

text \<open>\<open>extractedText?.length || 0\<close>.\<close>

definition extracted_length :: "string option \<Rightarrow> nat" where
  "extracted_length extractedText = (case extractedText of None \<Rightarrow> 0 | Some t \<Rightarrow> length t)"

text \<open>
  What the route writes to the console once the text of an uploaded document is
  extracted: for a PDF and for a plain text file.
\<close>

definition upload_log :: "string \<Rightarrow> string \<Rightarrow> string option \<Rightarrow> string list" where
  "upload_log file_type filename extractedText =
     (if file_type = ''application/pdf'' then
        [''Attempting to extract text from PDF: '' @ filename,
         check_mark @ '' Extracted '' @ show_nat (extracted_length extractedText)
           @ '' characters from PDF: '' @ filename]
      else if file_type = ''text/plain'' then
        [''Attempting to read TXT file: '' @ filename,
         check_mark @ '' Read '' @ show_nat (extracted_length extractedText)
           @ '' characters from TXT: '' @ filename]
      else [])"

text \<open>Reading a logged line: the number made by its first run of digits.\<close>

definition logged_number :: "string \<Rightarrow> nat option" where
  "logged_number line =
     (case takeWhile is_digit (dropWhile (\<lambda>c. \<not> is_digit c) line) of
        [] \<Rightarrow> None
      | ds \<Rightarrow> digits_value 0 ds)"

section \<open>Properties of the memory store\<close>

subsection \<open>Decimal text and \<open>CAST\<close>\<close>

lemma code_digit_char: "d < 10 \<Longrightarrow> code (digit_char d) = 48 + d"
  by (simp add: code_def digit_char_def)

lemma is_digit_digit_char: "d < 10 \<Longrightarrow> is_digit (digit_char d)"
  by (simp add: is_digit_def code_digit_char)

lemma digits_value_snoc:
  "d < 10 \<Longrightarrow> digits_value acc (xs @ [digit_char d]) = map_option (\<lambda>v. v * 10 + d) (digits_value acc xs)"
  by (induction xs arbitrary: acc) (simp_all add: is_digit_digit_char code_digit_char)

lemma digits_value_show_nat: "digits_value 0 (show_nat n) = Some n"
proof (induction n rule: show_nat.induct)
  case (1 n)
  show ?case
  proof (cases "n < 10")
    case True
    then show ?thesis
      by (subst show_nat.simps) (simp add: is_digit_digit_char code_digit_char)
  next
    case False
    with 1 have "digits_value 0 (show_nat (n div 10)) = Some (n div 10)" by simp
    with False show ?thesis
      by (subst show_nat.simps) (simp add: digits_value_snoc)
  qed
qed

lemma show_nat_digits: "c \<in> set (show_nat n) \<Longrightarrow> is_digit c"
proof (induction n rule: show_nat.induct)
  case (1 n)
  then show ?case
    by (subst (asm) (2) show_nat.simps) (auto simp: is_digit_digit_char split: if_splits)
qed

lemma show_nat_nonempty: "show_nat n \<noteq> []"
  by (subst show_nat.simps) simp

lemma signed_digits_toString: "signed_digits (toString i) = Some i"
proof (cases "i < 0")
  case True
  then show ?thesis
    by (simp add: toString_def signed_digits_def show_nat_nonempty digits_value_show_nat)
next
  case False
  obtain c cs where cs: "show_nat (nat i) = c # cs"
    using show_nat_nonempty [of "nat i"] by (cases "show_nat (nat i)") auto
  then have "is_digit c" using show_nat_digits [of c "nat i"] by simp
  then have "c \<noteq> CHR ''-''" "c \<noteq> CHR ''+''" by (auto simp: is_digit_def code_def)
  with False cs digits_value_show_nat [of "nat i"] show ?thesis
    by (simp add: toString_def signed_digits_def)
qed

lemma strip_blanks_none: "(\<And>c. c \<in> set t \<Longrightarrow> \<not> is_blank c) \<Longrightarrow> strip_blanks t = t"
proof -
  assume a: "\<And>c. c \<in> set t \<Longrightarrow> \<not> is_blank c"
  have keep: "dropWhile is_blank s = s" if "\<And>c. c \<in> set s \<Longrightarrow> \<not> is_blank c" for s
    using that by (cases s) auto
  from a have "dropWhile is_blank t = t" by (rule keep)
  moreover from a have "dropWhile is_blank (rev t) = rev t" by (intro keep) simp
  ultimately show ?thesis by (simp add: strip_blanks_def)
qed

lemma toString_no_blank: "c \<in> set (toString i) \<Longrightarrow> \<not> is_blank c"
proof -
  have "\<not> is_blank d" if "is_digit d" for d
    using that by (auto simp: is_digit_def is_blank_def)
  moreover have "\<not> is_blank (CHR ''-'')" by (simp add: is_blank_def code_def)
  ultimately show "c \<in> set (toString i) \<Longrightarrow> \<not> is_blank c"
    by (auto simp: toString_def dest: show_nat_digits split: if_splits)
qed

lemma cast_integer_toString:
  "- 2147483648 \<le> i \<Longrightarrow> i \<le> 2147483647 \<Longrightarrow> cast_integer (toString i) = Inr i"
  by (simp add: cast_integer_def signed_digits_toString strip_blanks_none toString_no_blank)

lemma cast_integer_range: "cast_integer t = Inr n \<Longrightarrow> - 2147483648 \<le> n \<and> n \<le> 2147483647"
  by (auto simp: cast_integer_def split: option.splits if_splits)

lemma bump_accessCount_ok:
  assumes "cast_integer t = Inr n" and "n < 2147483647"
  shows "bump_accessCount t = Inr (toString (n + 1))" and "cast_integer (toString (n + 1)) = Inr (n + 1)"
  using assms cast_integer_range [OF assms(1)]
  by (simp_all add: bump_accessCount_def cast_integer_toString)

subsection \<open>One row per user and key\<close>

lemma save_set_keys:
  "save_set now params imp r = Inr r' \<Longrightarrow> userId r' = userId r \<and> key r' = key r \<and> mem_id r' = mem_id r"
  by (auto simp: save_set_def split: sum.splits)

lemma sql_update_keys:
  assumes "sql_update P f rows = Inr (ret, rows')"
    and "\<And>r r'. f r = Inr r' \<Longrightarrow> userId r' = userId r \<and> key r' = key r"
  shows "map (\<lambda>m. (userId m, key m)) rows' = map (\<lambda>m. (userId m, key m)) rows"
  using assms(1)
proof (induction rows arbitrary: ret rows')
  case Nil
  then show ?case by simp
next
  case (Cons r rs)
  then show ?case
    by (auto split: if_splits sum.splits prod.splits dest: assms(2))
qed

lemma count_key_distinct:
  "unique_keys rows \<Longrightarrow> count_key u k rows \<le> 1"
  unfolding unique_keys_def count_key_def
  by (induction rows) (auto simp: image_iff filter_empty_conv)

lemma count_key_map:
  "count_key u k rows = count_list (map (\<lambda>m. (userId m, key m)) rows) (u, k)"
  unfolding count_key_def by (induction rows) auto

lemma saveMemory_unique:
  assumes "unique_keys rows" and "saveMemory now newId params rows = Inr (res, rows')"
  shows "unique_keys rows'"
proof (cases "filter (\<lambda>m. userId m = p_userId params \<and> key m = p_key params) rows")
  case Nil
  then have "(p_userId params, p_key params) \<notin> set (map (\<lambda>m. (userId m, key m)) rows)"
    by (auto simp: filter_empty_conv)
  with assms Nil show ?thesis
    by (auto simp: saveMemory_def unique_keys_def Let_def)
next
  case (Cons e es)
  with assms(2) obtain updated where
    "sql_update (\<lambda>m. mem_id m = mem_id e)
       (save_set now params (case p_importance params of None \<Rightarrow> 5 | Some i \<Rightarrow> i)) rows = Inr (updated, rows')"
    by (auto simp: saveMemory_def Let_def split: sum.splits prod.splits)
  then have "map (\<lambda>m. (userId m, key m)) rows' = map (\<lambda>m. (userId m, key m)) rows"
    by (rule sql_update_keys) (auto dest: save_set_keys)
  with assms(1) show ?thesis by (simp add: unique_keys_def)
qed

lemma saveMemory_present:
  assumes "saveMemory now newId params rows = Inr (res, rows')"
  shows "1 \<le> count_key (p_userId params) (p_key params) rows'"
proof (cases "filter (\<lambda>m. userId m = p_userId params \<and> key m = p_key params) rows")
  case Nil
  with assms show ?thesis
    by (auto simp: saveMemory_def count_key_def Let_def)
next
  case (Cons e es)
  with assms obtain updated where
    "sql_update (\<lambda>m. mem_id m = mem_id e)
       (save_set now params (case p_importance params of None \<Rightarrow> 5 | Some i \<Rightarrow> i)) rows = Inr (updated, rows')"
    by (auto simp: saveMemory_def Let_def split: sum.splits prod.splits)
  then have "map (\<lambda>m. (userId m, key m)) rows' = map (\<lambda>m. (userId m, key m)) rows"
    by (rule sql_update_keys) (auto dest: save_set_keys)
  then have "count_key (p_userId params) (p_key params) rows' = count_key (p_userId params) (p_key params) rows"
    by (simp add: count_key_map)
  with Cons show ?thesis by (simp add: count_key_def)
qed

lemma saveMemory_failed_present:
  assumes "saveMemory now newId params rows = Inl e"
  shows "1 \<le> count_key (p_userId params) (p_key params) rows"
  using assms
  by (cases "filter (\<lambda>m. userId m = p_userId params \<and> key m = p_key params) rows")
     (auto simp: saveMemory_def count_key_def Let_def)

lemma saveMemory_calls_unique:
  "unique_keys rows \<Longrightarrow> unique_keys (saveMemory_calls cs rows)"
proof (induction cs arbitrary: rows)
  case Nil
  then show ?case by simp
next
  case (Cons c cs)
  obtain now newId params where c: "c = (now, newId, params)" by (cases c)
  show ?case
  proof (cases "saveMemory now newId params rows")
    case (Inl e)
    with Cons c show ?thesis by simp
  next
    case (Inr p)
    then obtain res rows' where "saveMemory now newId params rows = Inr (res, rows')" by (cases p) auto
    with Cons c show ?thesis by (auto dest: saveMemory_unique)
  qed
qed


lemma sql_update_length:
  "sql_update P f rows = Inr (ret, rows') \<Longrightarrow> length rows' = length rows"
  by (induction rows arbitrary: ret rows') (auto split: if_splits sum.splits prod.splits)

lemma saveMemory_in_place:
  assumes "1 \<le> count_key (p_userId params) (p_key params) rows"
    and "saveMemory now newId params rows = Inr (res, rows')"
  shows "length rows' = length rows"
proof (cases "filter (\<lambda>m. userId m = p_userId params \<and> key m = p_key params) rows")
  case Nil
  with assms(1) show ?thesis by (simp add: count_key_def)
next
  case (Cons e es)
  with assms(2) obtain updated where
    "sql_update (\<lambda>m. mem_id m = mem_id e)
       (save_set now params (case p_importance params of None \<Rightarrow> 5 | Some i \<Rightarrow> i)) rows = Inr (updated, rows')"
    by (auto simp: saveMemory_def Let_def split: sum.splits prod.splits)
  then show ?thesis by (rule sql_update_length)
qed

lemma saveMemory_calls_single:
  "1 \<le> count_key (p_userId params) (p_key params) (saveMemory_calls [(now, newId, params)] rows)"
  by (cases "saveMemory now newId params rows")
     (auto dest: saveMemory_failed_present saveMemory_present)

lemma saveMemory_calls_append:
  "saveMemory_calls (cs @ ds) rows = saveMemory_calls ds (saveMemory_calls cs rows)"
  by (induction cs rows rule: saveMemory_calls.induct) (auto split: sum.splits)


lemma sql_update_rel:
  "sql_update P f rows = Inr (ret, rows')
     \<Longrightarrow> list_all2 (\<lambda>r r'. if P r then f r = Inr r' else r' = r) rows rows'"
proof (induction rows arbitrary: ret rows')
  case Nil
  then show ?case by simp
next
  case (Cons r rs)
  show ?case
  proof (cases "P r")
    case True
    with Cons.prems obtain r' ret' rs' where "f r = Inr r'"
      and "sql_update P f rs = Inr (ret', rs')" and "rows' = r' # rs'"
      by (auto split: sum.splits)
    with True Cons.IH show ?thesis by simp
  next
    case False
    with Cons.prems obtain ret' rs' where "sql_update P f rs = Inr (ret', rs')" and "rows' = r # rs'"
      by (auto split: sum.splits)
    with False Cons.IH show ?thesis by simp
  qed
qed

lemma filter_none_rel:
  assumes "list_all2 R xs ys" and "\<And>r r'. R r r' \<Longrightarrow> Q r' = Q r" and "filter Q xs = []"
  shows "filter Q ys = []"
  using assms(1,3)
proof (induction xs ys rule: list_all2_induct)
  case Nil
  then show ?case by simp
next
  case (Cons x xs y ys)
  from Cons.prems have "\<not> Q x" and "filter Q xs = []" by (auto split: if_splits)
  moreover from Cons.hyps(1) have "Q y = Q x" by (rule assms(2))
  ultimately show ?case using Cons.IH by simp
qed

lemma filter_single_rel:
  assumes "list_all2 R rows rows'" and "\<And>r r'. R r r' \<Longrightarrow> Q r' = Q r" and "filter Q rows = [e]"
  shows "\<exists>e'. R e e' \<and> filter Q rows' = [e']"
  using assms(1,3)
proof (induction rows rows' rule: list_all2_induct)
  case Nil
  then show ?case by simp
next
  case (Cons r rs r' rs')
  have same: "Q r' = Q r" using Cons.hyps(1) by (rule assms(2))
  show ?case
  proof (cases "Q r")
    case True
    with Cons.prems have "r = e" and none: "filter Q rs = []" by simp_all
    from Cons.hyps(2) assms(2) none have "filter Q rs' = []"
      by (rule filter_none_rel)
    with True same \<open>r = e\<close> Cons.hyps(1) show ?thesis by auto
  next
    case False
    with Cons.prems have "filter Q rs = [e]" by simp
    with Cons.IH obtain e' where "R e e'" and "filter Q rs' = [e']" by blast
    with False same show ?thesis by auto
  qed
qed

lemma save_set_fields:
  assumes "save_set now params imp r = Inr r'"
  shows "mem_value r' = p_value params" and "importance r' = toString imp"
    and "updatedAt r' = now" and "lastAccessedAt r' = now"
    and "mem_id r' = mem_id r" and "createdAt r' = createdAt r" and "category r' = category r"
    and "userId r' = userId r" and "key r' = key r"
  using assms by (auto simp: save_set_def split: sum.splits)

lemma saveMemory_stores:
  assumes one: "filter (\<lambda>m. userId m = p_userId params \<and> key m = p_key params) rows = [e]"
    and ok: "saveMemory now newId params rows = Inr (res, rows')"
  shows "\<exists>e'. filter (\<lambda>m. userId m = p_userId params \<and> key m = p_key params) rows' = [e']
           \<and> save_set now params (case p_importance params of None \<Rightarrow> 5 | Some i \<Rightarrow> i) e = Inr e'
           \<and> length rows' = length rows"
proof -
  define imp where "imp = (case p_importance params of None \<Rightarrow> 5 | Some i \<Rightarrow> i)"
  from one ok obtain updated where
    upd: "sql_update (\<lambda>m. mem_id m = mem_id e) (save_set now params imp) rows = Inr (updated, rows')"
    by (auto simp: saveMemory_def imp_def split: sum.splits prod.splits)
  let ?R = "\<lambda>r r'. if mem_id r = mem_id e then save_set now params imp r = Inr r' else r' = r"
  have rel: "list_all2 ?R rows rows'" using upd by (rule sql_update_rel)
  have keep: "(userId r' = p_userId params \<and> key r' = p_key params)
                = (userId r = p_userId params \<and> key r = p_key params)" if "?R r r'" for r r'
    using that by (auto split: if_splits dest: save_set_keys)
  from filter_single_rel [of ?R rows rows'
      "\<lambda>m. userId m = p_userId params \<and> key m = p_key params" e, OF rel keep one]
  obtain e' where "save_set now params imp e = Inr e'"
    and "filter (\<lambda>m. userId m = p_userId params \<and> key m = p_key params) rows' = [e']"
    by auto
  moreover from upd have "length rows' = length rows" by (rule sql_update_length)
  ultimately show ?thesis unfolding imp_def by blast
qed

lemma toString_7: "toString 7 = ''7''"
  by code_simp

lemma bump_accessCount_1: "bump_accessCount ''1'' = Inr ''2''"
  by code_simp

lemma saveMemory_twice_from_empty:
  "saveMemory_calls
     [(t1, id1, \<lparr> p_userId = u, p_chatId = None, p_category = cat, p_key = ''name'',
                  p_value = ''Alice'', p_importance = Some 7, p_metadata = md \<rparr>),
      (t2, id2, \<lparr> p_userId = u, p_chatId = None, p_category = cat, p_key = ''name'',
                  p_value = ''Alice'', p_importance = Some 7, p_metadata = md \<rparr>)] []
   = [\<lparr> mem_id = id1, userId = u, chatId = None, category = cat, key = ''name'',
        mem_value = ''Alice'', importance = ''7'', createdAt = t1, updatedAt = t2,
        lastAccessedAt = t2, accessCount = ''2'', metadata = md \<rparr>]"
  by (cases md) (simp_all add: saveMemory_def save_set_def toString_7 bump_accessCount_1 Let_def)

text \<open>
  Claim C3. Starting from a table with at most one row per \<open>(userId, key)\<close> pair, any
  sequence of \<open>saveMemory\<close> calls (each succeeding or throwing) leaves at most one row
  for every user and key. A call whose user and key have a row \<open>e\<close> updates it in
  place: the table keeps its length and its one row for that user and key is \<open>e\<close>
  rewritten, with the identifier and creation time of \<open>e\<close> and the value, importance
  and time of the call. Saving \<open>("name", "Alice", 7)\<close> twice for a user leaves exactly one
  row with key \<open>"name"\<close> for that user and the second call adds no row; from the empty
  table the two calls leave the single row inserted by the first and rewritten by the
  second (updated at the second time, access counter 2).
\<close>

theorem saveMemory_one_record_per_key:
  assumes "unique_keys rows"
  shows "unique_keys (saveMemory_calls calls rows)
    \<and> count_key u k (saveMemory_calls calls rows) \<le> 1
    \<and> count_key u ''name''
         (saveMemory_calls
            [(t1, id1, \<lparr> p_userId = u, p_chatId = c, p_category = cat, p_key = ''name'',
                         p_value = ''Alice'', p_importance = Some 7, p_metadata = md \<rparr>),
             (t2, id2, \<lparr> p_userId = u, p_chatId = c, p_category = cat, p_key = ''name'',
                         p_value = ''Alice'', p_importance = Some 7, p_metadata = md \<rparr>)] rows) = 1
    \<and> length (saveMemory_calls
            [(t1, id1, \<lparr> p_userId = u, p_chatId = c, p_category = cat, p_key = ''name'',
                         p_value = ''Alice'', p_importance = Some 7, p_metadata = md \<rparr>),
             (t2, id2, \<lparr> p_userId = u, p_chatId = c, p_category = cat, p_key = ''name'',
                         p_value = ''Alice'', p_importance = Some 7, p_metadata = md \<rparr>)] rows)
       = length (saveMemory_calls
            [(t1, id1, \<lparr> p_userId = u, p_chatId = c, p_category = cat, p_key = ''name'',
                         p_value = ''Alice'', p_importance = Some 7, p_metadata = md \<rparr>)] rows)
    \<and> (\<forall>e res rows'.
          filter (\<lambda>m. userId m = p_userId params \<and> key m = p_key params) rows = [e]
          \<and> saveMemory now newId params rows = Inr (res, rows')
          \<longrightarrow> (\<exists>e'. filter (\<lambda>m. userId m = p_userId params \<and> key m = p_key params) rows' = [e']
                 \<and> mem_value e' = p_value params
                 \<and> importance e' = toString (case p_importance params of None \<Rightarrow> 5 | Some i \<Rightarrow> i)
                 \<and> updatedAt e' = now
                 \<and> mem_id e' = mem_id e
                 \<and> createdAt e' = createdAt e
                 \<and> length rows' = length rows
                 \<and> unique_keys rows'))
    \<and> saveMemory_calls
         [(t1, id1, \<lparr> p_userId = u, p_chatId = None, p_category = cat, p_key = ''name'',
                      p_value = ''Alice'', p_importance = Some 7, p_metadata = md \<rparr>),
          (t2, id2, \<lparr> p_userId = u, p_chatId = None, p_category = cat, p_key = ''name'',
                      p_value = ''Alice'', p_importance = Some 7, p_metadata = md \<rparr>)] []
       = [\<lparr> mem_id = id1, userId = u, chatId = None, category = cat, key = ''name'',
            mem_value = ''Alice'', importance = ''7'', createdAt = t1, updatedAt = t2,
            lastAccessedAt = t2, accessCount = ''2'', metadata = md \<rparr>]"
proof -
  define p where "p = \<lparr> p_userId = u, p_chatId = c, p_category = cat, p_key = ''name'',
                         p_value = ''Alice'', p_importance = Some 7, p_metadata = md \<rparr>"
  define once where "once = saveMemory_calls [(t1, id1, p)] rows"
  have twice: "saveMemory_calls [(t1, id1, p), (t2, id2, p)] rows = saveMemory_calls [(t2, id2, p)] once"
    using saveMemory_calls_append [of "[(t1, id1, p)]" "[(t2, id2, p)]" rows] by (simp add: once_def)
  have u1: "unique_keys (saveMemory_calls calls rows)"
    using assms by (rule saveMemory_calls_unique)
  then have u2: "count_key u k (saveMemory_calls calls rows) \<le> 1"
    by (rule count_key_distinct)
  have lo: "1 \<le> count_key u ''name'' (saveMemory_calls [(t2, id2, p)] once)"
    using saveMemory_calls_single [of p t2 id2 once] by (simp only: p_def CreateMemoryParams.simps)
  have hi: "count_key u ''name'' (saveMemory_calls [(t1, id1, p), (t2, id2, p)] rows) \<le> 1"
    using assms by (intro count_key_distinct saveMemory_calls_unique)
  from lo hi have u3: "count_key u ''name'' (saveMemory_calls [(t1, id1, p), (t2, id2, p)] rows) = 1"
    by (simp only: twice)
  have present: "1 \<le> count_key (p_userId p) (p_key p) once"
    unfolding once_def by (rule saveMemory_calls_single)
  have "length (saveMemory_calls [(t2, id2, p)] once) = length once"
  proof (cases "saveMemory t2 id2 p once")
    case (Inl e)
    then show ?thesis by simp
  next
    case (Inr r)
    then obtain res rows' where r: "saveMemory t2 id2 p once = Inr (res, rows')" by (cases r) auto
    from saveMemory_in_place [OF present r] r show ?thesis by simp
  qed
  then have u4: "length (saveMemory_calls [(t1, id1, p), (t2, id2, p)] rows)
                   = length (saveMemory_calls [(t1, id1, p)] rows)"
    by (simp only: twice once_def)
  have u5: "\<forall>e res rows'.
          filter (\<lambda>m. userId m = p_userId params \<and> key m = p_key params) rows = [e]
          \<and> saveMemory now newId params rows = Inr (res, rows')
          \<longrightarrow> (\<exists>e'. filter (\<lambda>m. userId m = p_userId params \<and> key m = p_key params) rows' = [e']
                 \<and> mem_value e' = p_value params
                 \<and> importance e' = toString (case p_importance params of None \<Rightarrow> 5 | Some i \<Rightarrow> i)
                 \<and> updatedAt e' = now
                 \<and> mem_id e' = mem_id e
                 \<and> createdAt e' = createdAt e
                 \<and> length rows' = length rows
                 \<and> unique_keys rows')"
  proof (intro allI impI, elim conjE)
    fix e res rows'
    assume one: "filter (\<lambda>m. userId m = p_userId params \<and> key m = p_key params) rows = [e]"
      and ok: "saveMemory now newId params rows = Inr (res, rows')"
    from saveMemory_stores [OF one ok] obtain e' where
      f: "filter (\<lambda>m. userId m = p_userId params \<and> key m = p_key params) rows' = [e']"
      and s: "save_set now params (case p_importance params of None \<Rightarrow> 5 | Some i \<Rightarrow> i) e = Inr e'"
      and l: "length rows' = length rows"
      by blast
    from assms ok have "unique_keys rows'" by (rule saveMemory_unique)
    with f l save_set_fields [OF s]
    show "\<exists>e'. filter (\<lambda>m. userId m = p_userId params \<and> key m = p_key params) rows' = [e']
                 \<and> mem_value e' = p_value params
                 \<and> importance e' = toString (case p_importance params of None \<Rightarrow> 5 | Some i \<Rightarrow> i)
                 \<and> updatedAt e' = now
                 \<and> mem_id e' = mem_id e
                 \<and> createdAt e' = createdAt e
                 \<and> length rows' = length rows
                 \<and> unique_keys rows'"
      by (intro exI [of _ e']) simp
  qed
  show ?thesis
    unfolding p_def [symmetric]
    by (intro conjI) (rule u1 u2 u3 u4 u5 saveMemory_twice_from_empty)+
qed

theorem saveMemory_one_record_per_key_witness:
  "unique_keys
     [\<lparr> mem_id = ''id-1'', userId = ''u1'', chatId = None, category = ''personal'',
        key = ''name'', mem_value = ''Al'', importance = ''5'', createdAt = 10, updatedAt = 10,
        lastAccessedAt = 10, accessCount = ''1'', metadata = None \<rparr>]
   \<and> saveMemory 20 ''id-2''
        \<lparr> p_userId = ''u1'', p_chatId = None, p_category = ''personal'', p_key = ''name'',
          p_value = ''Alice'', p_importance = Some 7, p_metadata = None \<rparr>
        [\<lparr> mem_id = ''id-1'', userId = ''u1'', chatId = None, category = ''personal'',
           key = ''name'', mem_value = ''Al'', importance = ''5'', createdAt = 10, updatedAt = 10,
           lastAccessedAt = 10, accessCount = ''1'', metadata = None \<rparr>]
      = Inr (Some \<lparr> mem_id = ''id-1'', userId = ''u1'', chatId = None, category = ''personal'',
                    key = ''name'', mem_value = ''Alice'', importance = ''7'', createdAt = 10,
                    updatedAt = 20, lastAccessedAt = 20, accessCount = ''2'', metadata = None \<rparr>,
             [\<lparr> mem_id = ''id-1'', userId = ''u1'', chatId = None, category = ''personal'',
                key = ''name'', mem_value = ''Alice'', importance = ''7'', createdAt = 10,
                updatedAt = 20, lastAccessedAt = 20, accessCount = ''2'', metadata = None \<rparr>])
   \<and> count_key ''u1'' ''name''
        (saveMemory_calls
           [(20, ''id-2'', \<lparr> p_userId = ''u1'', p_chatId = None, p_category = ''personal'',
                            p_key = ''name'', p_value = ''Alice'', p_importance = Some 7,
                            p_metadata = None \<rparr>),
            (30, ''id-3'', \<lparr> p_userId = ''u1'', p_chatId = None, p_category = ''personal'',
                            p_key = ''name'', p_value = ''Alice'', p_importance = Some 7,
                            p_metadata = None \<rparr>)]
           [\<lparr> mem_id = ''id-1'', userId = ''u1'', chatId = None, category = ''personal'',
              key = ''name'', mem_value = ''Al'', importance = ''5'', createdAt = 10, updatedAt = 10,
              lastAccessedAt = 10, accessCount = ''1'', metadata = None \<rparr>]) = 1"
proof -
  define r where "r = \<lparr> mem_id = ''id-1'', userId = ''u1'', chatId = None, category = ''personal'',
        key = ''name'', mem_value = ''Al'', importance = ''5'', createdAt = 10, updatedAt = 10,
        lastAccessedAt = 10, accessCount = ''1'', metadata = None \<rparr>"
  define p where "p = \<lparr> p_userId = ''u1'', p_chatId = None, p_category = ''personal'', p_key = ''name'',
          p_value = ''Alice'', p_importance = Some 7, p_metadata = None \<rparr>"
  have h: "unique_keys [r]" by (simp add: unique_keys_def)
  have run: "saveMemory 20 ''id-2'' p [r]
      = Inr (Some (r\<lparr> mem_value := ''Alice'', importance := ''7'', updatedAt := 20,
                      lastAccessedAt := 20, accessCount := ''2'' \<rparr>),
             [r\<lparr> mem_value := ''Alice'', importance := ''7'', updatedAt := 20,
                 lastAccessedAt := 20, accessCount := ''2'' \<rparr>])"
    by (simp add: saveMemory_def save_set_def r_def p_def toString_7 bump_accessCount_1 Let_def)
  have one: "filter (\<lambda>m. userId m = p_userId p \<and> key m = p_key p) [r] = [r]"
    by (simp add: r_def p_def)
  note inst = saveMemory_one_record_per_key [OF h, of "[]" "''u1''" "''name''" 20 "''id-2''" None
      "''personal''" None 30 "''id-3''" p 20 "''id-2''"]
  from inst have "count_key ''u1'' ''name'' (saveMemory_calls [(20, ''id-2'', p), (30, ''id-3'', p)] [r]) = 1"
    unfolding p_def by blast
  moreover from inst one run
  have "\<exists>e'. filter (\<lambda>m. userId m = p_userId p \<and> key m = p_key p)
                [r\<lparr> mem_value := ''Alice'', importance := ''7'', updatedAt := 20,
                    lastAccessedAt := 20, accessCount := ''2'' \<rparr>] = [e']
             \<and> mem_value e' = p_value p"
    by blast
  ultimately show ?thesis
    using h run unfolding r_def p_def by simp
qed

subsection \<open>The update branch of \<open>saveMemory\<close>\<close>

lemma sql_update_none:
  "\<forall>r \<in> set rows. \<not> P r \<Longrightarrow> sql_update P f rows = Inr ([], rows)"
  by (induction rows) auto

lemma sql_update_one:
  assumes "distinct (map mem_id rows)" and "e \<in> set rows" and "f e = Inr e'"
  shows "sql_update (\<lambda>m. mem_id m = mem_id e) f rows
           = Inr ([e'], map (\<lambda>m. if mem_id m = mem_id e then e' else m) rows)"
  using assms(1,2)
proof (induction rows)
  case Nil
  then show ?case by simp
next
  case (Cons r rs)
  show ?case
  proof (cases "r = e")
    case True
    with Cons.prems have no: "\<forall>m \<in> set rs. \<not> mem_id m = mem_id e" by (auto simp: image_iff)
    then have "sql_update (\<lambda>m. mem_id m = mem_id e) f rs = Inr ([], rs)"
      by (rule sql_update_none)
    moreover from no have "map (\<lambda>m. if mem_id m = mem_id e then e' else m) rs = rs"
      by (induction rs) auto
    ultimately show ?thesis using True assms(3) by simp
  next
    case False
    with Cons.prems have "e \<in> set rs" and "mem_id r \<noteq> mem_id e" by (auto simp: image_iff)
    with Cons show ?thesis by simp
  qed
qed

text \<open>
  Claim C10, amended. When a row for \<open>(userId, key)\<close> exists (\<open>e\<close>, the first one found)
  and its access counter reads as the integer \<open>n\<close>, \<open>saveMemory\<close> returns the rewritten
  row \<open>e'\<close> and replaces \<open>e\<close> by it in the table: value, importance (the default 5 when
  none is given), \<open>updatedAt\<close> and \<open>lastAccessedAt\<close> are overwritten; the metadata is
  overwritten only when the call supplies one and is kept when the call omits it; the
  access counter becomes \<open>n + 1\<close>; \<open>chatId\<close> changes only when a non-empty one is
  supplied; and category, \<open>createdAt\<close>, identifier, user and key stay as they were,
  whatever category the call supplies.
\<close>

theorem saveMemory_update_frame:
  assumes ids: "distinct (map mem_id rows)"
    and existing: "filter (\<lambda>m. userId m = p_userId params \<and> key m = p_key params) rows = e # es"
    and count: "cast_integer (accessCount e) = Inr n" "n < 2147483647"
  shows "\<exists>e'. saveMemory now newId params rows
                = Inr (Some e', map (\<lambda>m. if mem_id m = mem_id e then e' else m) rows)
          \<and> mem_value e' = p_value params
          \<and> importance e' = toString (case p_importance params of None \<Rightarrow> 5 | Some i \<Rightarrow> i)
          \<and> updatedAt e' = now
          \<and> lastAccessedAt e' = now
          \<and> metadata e' = (case p_metadata params of None \<Rightarrow> metadata e | Some md \<Rightarrow> Some md)
          \<and> cast_integer (accessCount e') = Inr (n + 1)
          \<and> chatId e' = (case p_chatId params of
                           None \<Rightarrow> chatId e
                         | Some c \<Rightarrow> if c = [] then chatId e else Some c)
          \<and> category e' = category e
          \<and> createdAt e' = createdAt e
          \<and> mem_id e' = mem_id e \<and> userId e' = userId e \<and> key e' = key e"
proof -
  define imp where "imp = (case p_importance params of None \<Rightarrow> 5 | Some i \<Rightarrow> i)"
  have "e \<in> set (filter (\<lambda>m. userId m = p_userId params \<and> key m = p_key params) rows)"
    by (simp add: existing)
  then have mem: "e \<in> set rows" by simp
  from count have bump: "bump_accessCount (accessCount e) = Inr (toString (n + 1))"
    and rt: "cast_integer (toString (n + 1)) = Inr (n + 1)"
    by (rule bump_accessCount_ok)+
  define e' where "e' = e\<lparr> mem_value := p_value params, importance := toString imp,
      updatedAt := now, lastAccessedAt := now, accessCount := toString (n + 1),
      metadata := (case p_metadata params of None \<Rightarrow> metadata e | Some md \<Rightarrow> Some md),
      chatId := (case p_chatId params of None \<Rightarrow> chatId e
                 | Some c \<Rightarrow> if c = [] then chatId e else Some c) \<rparr>"
  from bump have set: "save_set now params imp e = Inr e'"
    by (simp add: save_set_def e'_def)
  from sql_update_one [of rows e "save_set now params imp" e', OF ids mem set] existing
  have "saveMemory now newId params rows
          = Inr (Some e', map (\<lambda>m. if mem_id m = mem_id e then e' else m) rows)"
    by (simp add: saveMemory_def imp_def)
  with rt show ?thesis
    by (intro exI [of _ e']) (simp add: e'_def imp_def)
qed

theorem saveMemory_update_frame_witness:
  "\<exists>e'. saveMemory 20 ''id-2''
            \<lparr> p_userId = ''u1'', p_chatId = None, p_category = ''fact'', p_key = ''name'',
              p_value = ''Bob'', p_importance = Some 9,
              p_metadata = Some [(''source'', MStr ''chat'')] \<rparr>
            [\<lparr> mem_id = ''id-1'', userId = ''u1'', chatId = None, category = ''personal'',
               key = ''name'', mem_value = ''Alice'', importance = ''7'', createdAt = 10,
               updatedAt = 10, lastAccessedAt = 10, accessCount = ''1'',
               metadata = Some [(''source'', MStr ''manual'')] \<rparr>]
          = Inr (Some e', [e'])
      \<and> category e' = ''personal'' \<and> createdAt e' = 10 \<and> mem_value e' = ''Bob''
      \<and> updatedAt e' = 20 \<and> cast_integer (accessCount e') = Inr 2
      \<and> metadata e' = Some [(''source'', MStr ''chat'')]"
proof -
  define r where "r = \<lparr> mem_id = ''id-1'', userId = ''u1'', chatId = None, category = ''personal'',
               key = ''name'', mem_value = ''Alice'', importance = ''7'', createdAt = 10,
               updatedAt = 10, lastAccessedAt = 10, accessCount = ''1'',
               metadata = Some [(''source'', MStr ''manual'')] \<rparr>"
  define p where "p = \<lparr> p_userId = ''u1'', p_chatId = None, p_category = ''fact'', p_key = ''name'',
              p_value = ''Bob'', p_importance = Some 9,
              p_metadata = Some [(''source'', MStr ''chat'')] \<rparr>"
  have h1: "distinct (map mem_id [r])" by simp
  have h2: "filter (\<lambda>m. userId m = p_userId p \<and> key m = p_key p) [r] = r # []"
    by (simp add: r_def p_def)
  have "cast_integer ''1'' = Inr 1" by code_simp
  then have h3: "cast_integer (accessCount r) = Inr 1" by (simp add: r_def)
  have h4: "(1::int) < 2147483647" by simp
  from saveMemory_update_frame [OF h1 h2 h3 h4, of 20 "''id-2''"]
  show ?thesis
    by (auto simp: r_def p_def)
qed

lemma toString_9: "toString 9 = ''9''"
  by code_simp

text \<open>
  Claim C10, as stated, fails: the metadata is not always overwritten. A call that omits
  the metadata on a row that has one rewrites value, importance, times and counter, and
  the stored metadata stays.
\<close>

theorem saveMemory_keeps_omitted_metadata:
  "saveMemory 20 ''id-2''
     \<lparr> p_userId = ''u1'', p_chatId = None, p_category = ''personal'', p_key = ''name'',
       p_value = ''Bob'', p_importance = Some 9, p_metadata = None \<rparr>
     [\<lparr> mem_id = ''id-1'', userId = ''u1'', chatId = None, category = ''personal'',
        key = ''name'', mem_value = ''Alice'', importance = ''7'', createdAt = 10,
        updatedAt = 10, lastAccessedAt = 10, accessCount = ''1'',
        metadata = Some [(''source'', MStr ''manual'')] \<rparr>]
   = Inr (Some \<lparr> mem_id = ''id-1'', userId = ''u1'', chatId = None, category = ''personal'',
                 key = ''name'', mem_value = ''Bob'', importance = ''9'', createdAt = 10,
                 updatedAt = 20, lastAccessedAt = 20, accessCount = ''2'',
                 metadata = Some [(''source'', MStr ''manual'')] \<rparr>,
          [\<lparr> mem_id = ''id-1'', userId = ''u1'', chatId = None, category = ''personal'',
             key = ''name'', mem_value = ''Bob'', importance = ''9'', createdAt = 10,
             updatedAt = 20, lastAccessedAt = 20, accessCount = ''2'',
             metadata = Some [(''source'', MStr ''manual'')] \<rparr>])"
  by (simp add: saveMemory_def save_set_def toString_9 bump_accessCount_1 Let_def)

subsection \<open>Reading memories\<close>

text \<open>
  What the \<open>SELECT\<close> keeps: its rows belong to the user, pass a non-zero importance
  threshold as integers, and are at most \<open>limit\<close> many (50 when no limit, or the limit
  0, is given). What the call returns: nothing but the empty list.
\<close>

lemma sql_select_result:
  "sql_select w rows = Inr out \<Longrightarrow> out = filter (\<lambda>r. w r = Inr True) rows"
proof (induction rows arbitrary: out)
  case Nil
  then show ?case by simp
next
  case (Cons r rs)
  from Cons.prems obtain b out' where w: "w r = Inr b" and rest: "sql_select w rs = Inr out'"
    and out: "out = (if b then r # out' else out')"
    by (simp split: sum.splits)
  from Cons.IH [OF rest] w out show ?case by simp
qed

lemma set_insert_row: "set (insert_row r xs) = insert r (set xs)"
  by (induction xs) auto

lemma set_order_by: "set (order_by rows) = set rows"
  unfolding order_by_def by (induction rows) (simp_all add: set_insert_row)

lemma memories_where_true:
  assumes "memories_where u opts r = Inr True"
  shows "userId r = u"
    and "opts = Some os \<Longrightarrow> o_minImportance os = Some n \<Longrightarrow> n \<noteq> 0
           \<Longrightarrow> \<exists>i. cast_integer (importance r) = Inr i \<and> n \<le> i"
proof -
  from assms show "userId r = u"
    by (simp add: memories_where_def split: if_splits)
  show "\<exists>i. cast_integer (importance r) = Inr i \<and> n \<le> i"
    if "opts = Some os" "o_minImportance os = Some n" "n \<noteq> 0"
    using assms that
    by (cases "cast_integer (importance r)") (simp_all add: memories_where_def split: if_splits)
qed

lemma select_memories_filter_and_limit:
  assumes "select_memories u opts rows = Inr results"
  shows "set results \<subseteq> set rows"
    and "\<forall>r \<in> set results. userId r = u"
    and "length results \<le> limit_of opts"
    and "opts = Some os \<Longrightarrow> o_minImportance os = Some n \<Longrightarrow> n \<noteq> 0
           \<Longrightarrow> \<forall>r \<in> set results. \<exists>i. cast_integer (importance r) = Inr i \<and> n \<le> i"
proof -
  from assms obtain selected where sel: "sql_select (memories_where u opts) rows = Inr selected"
    and res: "results = take (limit_of opts) (order_by selected)"
    by (auto simp: select_memories_def split: sum.splits)
  have "set results \<subseteq> set selected"
    using set_take_subset [of "limit_of opts" "order_by selected"] by (simp add: res set_order_by)
  moreover have "set selected = {r \<in> set rows. memories_where u opts r = Inr True}"
    using sql_select_result [OF sel] by simp
  ultimately have sub: "set results \<subseteq> {r \<in> set rows. memories_where u opts r = Inr True}"
    by simp
  then show "set results \<subseteq> set rows" by blast
  from sub show "\<forall>r \<in> set results. userId r = u"
    using memories_where_true(1) by blast
  show "length results \<le> limit_of opts" by (simp add: res)
  show "\<forall>r \<in> set results. \<exists>i. cast_integer (importance r) = Inr i \<and> n \<le> i"
    if "opts = Some os" "o_minImportance os = Some n" "n \<noteq> 0"
    using sub memories_where_true(2) [OF _ that] by blast
qed

lemma getMemoriesByUserId_returns_only_empty:
  "getMemoriesByUserId u opts rows = Inr (results, rows') \<Longrightarrow> results = [] \<and> rows' = rows"
  by (auto simp: getMemoriesByUserId_def split: sum.splits if_splits)

lemma getMemoriesByUserId_throws_on_rows:
  "select_memories u opts rows = Inr (r # results)
     \<Longrightarrow> getMemoriesByUserId u opts rows = Inl AnyOperandNotArray"
  by (simp add: getMemoriesByUserId_def)

text \<open>
  Claim C1. Two memories are saved for one user through \<open>saveMemory\<close>, with importance 10
  and 9, and then read with \<open>minImportance = 5\<close> and \<open>limit = 20\<close>. The call returns no
  list: its access tracking is rejected and it throws. The rows its \<open>SELECT\<close> had found
  are both memories, but the \<open>importance\<close> column is text and \<open>ORDER BY\<close> compares it as
  text: the record of importance 9 comes before the record of importance 10.
\<close>

theorem getMemoriesByUserId_text_order:
  "getMemoriesByUserId ''u1''
      (Some \<lparr> o_category = None, o_limit = Some 20, o_minImportance = Some 5 \<rparr>)
      (saveMemory_calls
        [(1, ''id-1'', \<lparr> p_userId = ''u1'', p_chatId = None, p_category = ''personal'', p_key = ''name'',
                p_value = ''Alice'', p_importance = Some 10, p_metadata = None \<rparr>),
         (2, ''id-2'', \<lparr> p_userId = ''u1'', p_chatId = None, p_category = ''personal'', p_key = ''city'',
                p_value = ''Oslo'', p_importance = Some 9, p_metadata = None \<rparr>)] [])
     = Inl AnyOperandNotArray
   \<and> (case select_memories ''u1''
          (Some \<lparr> o_category = None, o_limit = Some 20, o_minImportance = Some 5 \<rparr>)
          (saveMemory_calls
            [(1, ''id-1'', \<lparr> p_userId = ''u1'', p_chatId = None, p_category = ''personal'', p_key = ''name'',
                    p_value = ''Alice'', p_importance = Some 10, p_metadata = None \<rparr>),
             (2, ''id-2'', \<lparr> p_userId = ''u1'', p_chatId = None, p_category = ''personal'', p_key = ''city'',
                    p_value = ''Oslo'', p_importance = Some 9, p_metadata = None \<rparr>)] []) of
      Inl e \<Rightarrow> []
    | Inr results \<Rightarrow> map (\<lambda>m. (key m, importance m)) results)
     = [(''city'', ''9''), (''name'', ''10'')]"
  by code_simp

section \<open>Properties of the part assembler\<close>

lemma startsWith_append: "startsWith (p @ s) p"
  by (induction p) simp_all

lemma endsWith_append: "endsWith (s @ suffix) suffix"
  by (simp add: endsWith_def startsWith_append)

lemma artifact_parts_member:
  "artifact_parts ceiling raw = Inr parts \<Longrightarrow> RawArtifact name (ExtractedText t) \<in> set raw
     \<Longrightarrow> DocumentTextPart name (truncate_text ceiling t) \<in> set parts"
  by (induction ceiling raw arbitrary: parts rule: artifact_parts.induct)
     (auto split: sum.splits)

lemma artifact_parts_derived:
  "artifact_parts ceiling raw = Inr parts \<Longrightarrow> list_all attachment_derived parts"
  by (induction ceiling raw arbitrary: parts rule: artifact_parts.induct)
     (auto simp: attachment_derived_def split: sum.splits)

lemma artifact_parts_length:
  "artifact_parts ceiling raw = Inr parts
     \<Longrightarrow> length parts = length (filter (\<lambda>r. \<not> is_raw_text r) raw)"
  by (induction ceiling raw arbitrary: parts rule: artifact_parts.induct)
     (auto simp: is_raw_text_def split: sum.splits)

lemma text_parts_verbatim: "text_parts raw = [TextPart t. RawText t \<leftarrow> raw]"
  by (induction raw rule: text_parts.induct) simp_all

lemma text_parts_none: "filter is_raw_text raw = [] \<Longrightarrow> text_parts raw = []"
  by (induction raw rule: text_parts.induct) (auto simp: is_raw_text_def split: if_splits)

lemma text_parts_single: "filter is_raw_text raw = [RawText t] \<Longrightarrow> text_parts raw = [TextPart t]"
  by (induction raw rule: text_parts.induct)
     (auto simp: is_raw_text_def text_parts_none split: if_splits)

lemma logged_number_line:
  assumes "\<And>c. c \<in> set before \<Longrightarrow> \<not> is_digit c"
  shows "logged_number (before @ show_nat n @ CHR '' '' # after) = Some n"
proof -
  have digits: "\<And>c. c \<in> set (show_nat n) \<Longrightarrow> is_digit c" by (rule show_nat_digits)
  obtain d ds where ds: "show_nat n = d # ds"
    using show_nat_nonempty [of n] by (cases "show_nat n") auto
  then have "is_digit d" using digits [of d] by simp
  then have "dropWhile (\<lambda>c. \<not> is_digit c) (show_nat n @ CHR '' '' # after) = show_nat n @ CHR '' '' # after"
    by (simp add: ds)
  with assms have dw: "dropWhile (\<lambda>c. \<not> is_digit c) (before @ show_nat n @ CHR '' '' # after)
                     = show_nat n @ CHR '' '' # after"
    by (simp add: dropWhile_append2)
  have "\<not> is_digit (CHR '' '')" by (simp add: is_digit_def code_def)
  then have tw: "takeWhile is_digit (show_nat n @ CHR '' '' # after) = show_nat n"
    using digits by simp
  have "logged_number (before @ show_nat n @ CHR '' '' # after)
          = (case show_nat n of [] \<Rightarrow> None | x # xs \<Rightarrow> digits_value 0 (x # xs))"
    by (simp only: logged_number_def dw tw)
  also have "\<dots> = digits_value 0 (show_nat n)" by (simp add: ds)
  finally show ?thesis by (simp only: digits_value_show_nat)
qed

lemma upload_log_length:
  "logged_number (last (upload_log ''text/plain'' filename (Some t))) = Some (length t)"
  "logged_number (last (upload_log ''application/pdf'' filename (Some t))) = Some (length t)"
proof -
  have a: "\<not> is_digit c" if "c \<in> set (check_mark @ '' Read'' @ '' '')" for c
    using that by (auto simp: check_mark_def is_digit_def code_def)
  have b: "\<not> is_digit c" if "c \<in> set (check_mark @ '' Extracted'' @ '' '')" for c
    using that by (auto simp: check_mark_def is_digit_def code_def)
  from logged_number_line [of "check_mark @ '' Read'' @ '' ''" "length t" "''characters from TXT: '' @ filename", OF a]
  show "logged_number (last (upload_log ''text/plain'' filename (Some t))) = Some (length t)"
    by (simp add: upload_log_def extracted_length_def)
  from logged_number_line [of "check_mark @ '' Extracted'' @ '' ''" "length t" "''characters from PDF: '' @ filename", OF b]
  show "logged_number (last (upload_log ''application/pdf'' filename (Some t))) = Some (length t)"
    by (simp add: upload_log_def extracted_length_def)
qed

text \<open>
  Claim C4. When the assembler accepts a turn, its parts are one part for each raw part:
  first the parts derived from the artifacts, then the text inputs verbatim, wherever the
  text stood among the raw parts. With one text input, that text is the last part and
  every part before it is derived from an attachment. A text artifact with content
  \<open>hello\<close> and the input \<open>summarize\<close>, submitted in either order, give the document part
  and then the text part.
\<close>

theorem assemble_parts_order:
  assumes "assemble_parts ceiling raw = Inr parts"
  shows "list_all attachment_derived (take (length (filter (\<lambda>r. \<not> is_raw_text r) raw)) parts)
    \<and> drop (length (filter (\<lambda>r. \<not> is_raw_text r) raw)) parts = [TextPart t. RawText t \<leftarrow> raw]
    \<and> length parts = length raw
    \<and> (filter is_raw_text raw = [RawText input]
         \<longrightarrow> last parts = TextPart input \<and> list_all attachment_derived (butlast parts))
    \<and> assemble_parts 5 [RawArtifact name (ExtractedText ''hello''), RawText ''summarize'']
        = Inr [DocumentTextPart name ''hello'', TextPart ''summarize'']
    \<and> assemble_parts 5 [RawText ''summarize'', RawArtifact name (ExtractedText ''hello'')]
        = Inr [DocumentTextPart name ''hello'', TextPart ''summarize'']"
proof -
  from assms obtain aps where aps: "artifact_parts ceiling raw = Inr aps"
    and parts: "parts = aps @ text_parts raw"
    by (auto simp: assemble_parts_def split: sum.splits)
  have len: "length aps = length (filter (\<lambda>r. \<not> is_raw_text r) raw)"
    using aps by (rule artifact_parts_length)
  have der: "list_all attachment_derived aps"
    using aps by (rule artifact_parts_derived)
  have c1: "list_all attachment_derived (take (length (filter (\<lambda>r. \<not> is_raw_text r) raw)) parts)"
    using der by (simp add: parts len [symmetric])
  have c2: "drop (length (filter (\<lambda>r. \<not> is_raw_text r) raw)) parts = [TextPart t. RawText t \<leftarrow> raw]"
    by (simp add: parts len [symmetric] text_parts_verbatim)
  have "length (text_parts raw) = length (filter is_raw_text raw)"
    by (induction raw rule: text_parts.induct) (simp_all add: is_raw_text_def)
  then have c3: "length parts = length raw"
    using sum_length_filter_compl [of is_raw_text raw] by (simp add: parts len)
  have c4: "last parts = TextPart input \<and> list_all attachment_derived (butlast parts)"
    if "filter is_raw_text raw = [RawText input]"
    using text_parts_single [OF that] der by (simp add: parts)
  have c5: "assemble_parts 5 [RawArtifact name (ExtractedText ''hello''), RawText ''summarize'']
        = Inr [DocumentTextPart name ''hello'', TextPart ''summarize'']"
    by (simp add: assemble_parts_def truncate_text_def)
  have c6: "assemble_parts 5 [RawText ''summarize'', RawArtifact name (ExtractedText ''hello'')]
        = Inr [DocumentTextPart name ''hello'', TextPart ''summarize'']"
    by (simp add: assemble_parts_def truncate_text_def)
  from c1 c2 c3 c4 c5 c6 show ?thesis by blast
qed

theorem assemble_parts_order_witness:
  "assemble_parts 100
     [RawText ''what is in these?'', RawArtifact ''photo.png'' (InlineImage ''data:image/png;base64,iVBOR''),
      RawArtifact ''notes.txt'' (ExtractedText ''hello'')]
     = Inr [ImagePart ''data:image/png;base64,iVBOR'', DocumentTextPart ''notes.txt'' ''hello'',
            TextPart ''what is in these?'']
   \<and> last [ImagePart ''data:image/png;base64,iVBOR'', DocumentTextPart ''notes.txt'' ''hello'',
            TextPart ''what is in these?''] = TextPart ''what is in these?''
   \<and> list_all attachment_derived
         [ImagePart ''data:image/png;base64,iVBOR'', DocumentTextPart ''notes.txt'' ''hello'']"
proof -
  define raw where "raw = [RawText ''what is in these?'',
      RawArtifact ''photo.png'' (InlineImage ''data:image/png;base64,iVBOR''),
      RawArtifact ''notes.txt'' (ExtractedText ''hello'')]"
  have h1: "assemble_parts 100 raw
     = Inr [ImagePart ''data:image/png;base64,iVBOR'', DocumentTextPart ''notes.txt'' ''hello'',
            TextPart ''what is in these?'']"
    by (simp add: raw_def assemble_parts_def truncate_text_def)
  have h2: "filter is_raw_text raw = [RawText ''what is in these?'']"
    by (simp add: raw_def is_raw_text_def)
  from assemble_parts_order [OF h1, of "''what is in these?''"] h2
  have "last [ImagePart ''data:image/png;base64,iVBOR'', DocumentTextPart ''notes.txt'' ''hello'',
            TextPart ''what is in these?''] = TextPart ''what is in these?''
        \<and> list_all attachment_derived (butlast [ImagePart ''data:image/png;base64,iVBOR'',
            DocumentTextPart ''notes.txt'' ''hello'', TextPart ''what is in these?''])"
    by blast
  with h1 show ?thesis unfolding raw_def by simp
qed

text \<open>
  Claim C2. When the assembler accepts a turn holding a text artifact whose text is longer
  than the ceiling, the part of that artifact holds the first \<open>ceiling\<close> characters of the
  text followed by the marker: the part, also as rendered under its \<open>[File: name]\<close>
  header, ends with \<open>[... content truncated ...]\<close>. The length of the full text is the
  number in the line the upload route logged when it extracted the text.
\<close>

theorem assemble_parts_truncation_marker:
  assumes "assemble_parts ceiling raw = Inr parts"
    and "RawArtifact name (ExtractedText t) \<in> set raw"
    and "ceiling < length t"
  shows "DocumentTextPart name (take ceiling t @ truncation_marker) \<in> set parts
    \<and> endsWith (take ceiling t @ truncation_marker) truncation_marker
    \<and> endsWith (render_document name (take ceiling t @ truncation_marker)) truncation_marker
    \<and> length (take ceiling t @ truncation_marker) = ceiling + length truncation_marker
    \<and> take ceiling (take ceiling t @ truncation_marker) = take ceiling t
    \<and> logged_number (last (upload_log ''text/plain'' filename (Some t))) = Some (length t)
    \<and> logged_number (last (upload_log ''application/pdf'' filename (Some t))) = Some (length t)"
proof -
  from assms(1) obtain aps where aps: "artifact_parts ceiling raw = Inr aps"
    and parts: "parts = aps @ text_parts raw"
    by (auto simp: assemble_parts_def split: sum.splits)
  from artifact_parts_member [OF aps assms(2)] assms(3)
  have "DocumentTextPart name (take ceiling t @ truncation_marker) \<in> set parts"
    by (simp add: parts truncate_text_def)
  moreover have "endsWith (render_document name (take ceiling t @ truncation_marker)) truncation_marker"
    using endsWith_append [of "''[File: '' @ name @ '']'' @ [newline, newline] @ take ceiling t"
        truncation_marker]
    by (simp add: render_document_def)
  moreover from assms(3) have "length (take ceiling t @ truncation_marker) = ceiling + length truncation_marker"
    by simp
  moreover from assms(3) have "take ceiling (take ceiling t @ truncation_marker) = take ceiling t"
    by simp
  ultimately show ?thesis
    by (simp add: endsWith_append upload_log_length)
qed

theorem assemble_parts_truncation_marker_witness:
  "assemble_parts 5 [RawText ''summarize'', RawArtifact ''a.txt'' (ExtractedText ''hello world'')]
     = Inr [DocumentTextPart ''a.txt'' ''hello[... content truncated ...]'', TextPart ''summarize'']
   \<and> (5::nat) < length ''hello world''
   \<and> endsWith ''hello[... content truncated ...]'' truncation_marker
   \<and> logged_number (last (upload_log ''text/plain'' ''a.txt'' (Some ''hello world''))) = Some 11"
proof -
  have h1: "assemble_parts 5 [RawText ''summarize'', RawArtifact ''a.txt'' (ExtractedText ''hello world'')]
     = Inr [DocumentTextPart ''a.txt'' ''hello[... content truncated ...]'', TextPart ''summarize'']"
    by (simp add: assemble_parts_def truncate_text_def truncation_marker_def)
  have h2: "RawArtifact ''a.txt'' (ExtractedText ''hello world'')
              \<in> set [RawText ''summarize'', RawArtifact ''a.txt'' (ExtractedText ''hello world'')]"
    by simp
  have h3: "(5::nat) < length ''hello world''" by simp
  from assemble_parts_truncation_marker [OF h1 h2 h3, of "''a.txt''"]
  show ?thesis using h1 h3 by (simp add: truncation_marker_def)
qed

section \<open>Properties of the provider constraint adapter\<close>









section \<open>Properties of text extraction\<close>

text \<open>
  Claim C6, amended. When the parse step throws, \<open>extractTextFromPDF\<close> throws too and
  returns no text. The message of its error is chosen from the message of the parser's
  error, in this order: it contains \<open>Invalid PDF\<close>: corrupted file; it contains
  \<open>password\<close>: password-protected; it contains \<open>encrypted\<close>: encrypted; any other
  non-empty message: a parsing error carrying that message; no message: the generic
  failure. A buffer that is not a PDF is reported as corrupted only when the parser's
  message for it contains \<open>Invalid PDF\<close>.
\<close>

theorem extractTextFromPDF_failure_kinds:
  assumes "pdfParse buf = Threw message"
  shows "(\<exists>err. extractTextFromPDF pdfParse buf = Inl err)
    \<and> (\<forall>m. message = Some m \<and> str_includes m ''Invalid PDF''
          \<longrightarrow> extractTextFromPDF pdfParse buf = Inl ''Invalid or corrupted PDF file'')
    \<and> (\<forall>m. message = Some m \<and> \<not> str_includes m ''Invalid PDF'' \<and> str_includes m ''password''
          \<longrightarrow> extractTextFromPDF pdfParse buf = Inl ''PDF is password-protected'')
    \<and> (\<forall>m. message = Some m \<and> \<not> str_includes m ''Invalid PDF'' \<and> \<not> str_includes m ''password''
             \<and> str_includes m ''encrypted''
          \<longrightarrow> extractTextFromPDF pdfParse buf = Inl ''PDF is encrypted'')
    \<and> (\<forall>m. message = Some m \<and> \<not> str_includes m ''Invalid PDF'' \<and> \<not> str_includes m ''password''
             \<and> \<not> str_includes m ''encrypted'' \<and> m \<noteq> []
          \<longrightarrow> extractTextFromPDF pdfParse buf = Inl (''PDF parsing error: '' @ m))
    \<and> (message = None \<or> message = Some []
          \<longrightarrow> extractTextFromPDF pdfParse buf = Inl ''Failed to extract text from PDF'')"
  using assms by (auto simp: extractTextFromPDF_def pdf_error_message_def)

theorem extractTextFromPDF_failure_kinds_witness:
  "extractTextFromPDF (\<lambda>b. Threw (Some ''Invalid PDF structure'')) [0, 0, 0]
     = Inl ''Invalid or corrupted PDF file''
   \<and> extractTextFromPDF (\<lambda>b. Threw (Some ''No password given'')) [37, 80, 68, 70]
     = Inl ''PDF is password-protected''
   \<and> extractTextFromPDF (\<lambda>b. Threw (Some ''file is encrypted'')) [37, 80, 68, 70]
     = Inl ''PDF is encrypted''
   \<and> extractTextFromPDF (\<lambda>b. Threw (Some ''bad XRef entry'')) [37, 80, 68, 70]
     = Inl ''PDF parsing error: bad XRef entry''
   \<and> extractTextFromPDF (\<lambda>b. Threw None) [37, 80, 68, 70]
     = Inl ''Failed to extract text from PDF''"
proof -
  have a: "(\<lambda>b::buffer. Threw (Some ''Invalid PDF structure'')) [0, 0, 0] = Threw (Some ''Invalid PDF structure'')"
    by simp
  have b: "(\<lambda>b::buffer. Threw (Some ''No password given'')) [37, 80, 68, 70] = Threw (Some ''No password given'')"
    by simp
  have c: "(\<lambda>b::buffer. Threw (Some ''file is encrypted'')) [37, 80, 68, 70] = Threw (Some ''file is encrypted'')"
    by simp
  have d: "(\<lambda>b::buffer. Threw (Some ''bad XRef entry'')) [37, 80, 68, 70] = Threw (Some ''bad XRef entry'')"
    by simp
  have e: "(\<lambda>b::buffer. Threw None) [37, 80, 68, 70] = Threw None"
    by simp
  from extractTextFromPDF_failure_kinds [OF a] extractTextFromPDF_failure_kinds [OF b]
    extractTextFromPDF_failure_kinds [OF c] extractTextFromPDF_failure_kinds [OF d]
    extractTextFromPDF_failure_kinds [OF e]
  show ?thesis by simp
qed

text \<open>
  Claim C6, as stated, fails for the buffer without bytes: the parser's message for it
  (\<open>stream must have data\<close>) names none of the three conditions, so the failure is the
  parsing error carrying that message, not the corrupted file.
\<close>

theorem extractTextFromPDF_empty_buffer:
  "extractTextFromPDF (\<lambda>b. Threw (Some ''stream must have data'')) []
     = Inl ''PDF parsing error: stream must have data''"
  by (simp add: extractTextFromPDF_def pdf_error_message_def)

subsection \<open>Decoding what was encoded\<close>












section \<open>Properties of the memory prose\<close>

lemma first_occurrences_snoc:
  "first_occurrences (xs @ [x]) = (if x \<in> set xs then first_occurrences xs else first_occurrences xs @ [x])"
  by (simp add: first_occurrences_def)

lemma set_first_occurrences: "set (first_occurrences xs) = set xs"
  by (simp add: first_occurrences_def)

lemma distinct_first_occurrences: "distinct (first_occurrences xs)"
  by (simp add: first_occurrences_def)

lemma push_group_present:
  "c \<in> set cs \<Longrightarrow> distinct cs \<Longrightarrow> category_of m = c \<Longrightarrow>
     push_group c m (map (\<lambda>c'. (c', filter (\<lambda>x. category_of x = c') mems)) cs)
       = map (\<lambda>c'. (c', filter (\<lambda>x. category_of x = c') (mems @ [m]))) cs"
  by (induction cs) auto

lemma push_group_absent:
  "c \<notin> set cs \<Longrightarrow> category_of m = c \<Longrightarrow>
     push_group c m (map (\<lambda>c'. (c', filter (\<lambda>x. category_of x = c') mems)) cs)
       = map (\<lambda>c'. (c', filter (\<lambda>x. category_of x = c') (mems @ [m]))) cs @ [(c, [m])]"
  by (induction cs) auto

lemma groups_of_snoc:
  "groups_of (mems @ [m]) = push_group (category_of m) m (groups_of mems)"
proof (cases "category_of m \<in> set (map category_of mems)")
  case True
  then show ?thesis
    unfolding groups_of_def
    by (simp add: first_occurrences_snoc push_group_present set_first_occurrences
        distinct_first_occurrences)
next
  case False
  then have "filter (\<lambda>x. category_of x = category_of m) mems = []"
    by (auto simp: filter_empty_conv image_iff)
  with False show ?thesis
    unfolding groups_of_def
    by (simp add: first_occurrences_snoc push_group_absent set_first_occurrences)
qed

lemma group_memories_append:
  "group_memories acc (xs @ ys) =
     (case group_memories acc xs of Inl e \<Rightarrow> Inl e | Inr acc' \<Rightarrow> group_memories acc' ys)"
  by (induction xs arbitrary: acc) auto

lemma group_memories_groups_of:
  "\<forall>m \<in> set mems. category_of m \<notin> set object_prototype_keys \<Longrightarrow>
     group_memories [] mems = Inr (groups_of mems)"
proof (induction mems rule: rev_induct)
  case Nil
  then show ?case by (simp add: groups_of_def first_occurrences_def)
next
  case (snoc m mems)
  then show ?case
    by (simp add: group_memories_append groups_of_snoc)
qed

lemma object_entries_plain:
  "\<forall>k \<in> set (map fst props). array_index k = None \<Longrightarrow> object_entries props = props"
proof -
  assume a: "\<forall>k \<in> set (map fst props). array_index k = None"
  then have "List.map_filter (\<lambda>(k, v). map_option (\<lambda>n. (n, (k, v))) (array_index k)) props = []"
    by (induction props) auto
  moreover from a have "filter (\<lambda>(k, v). array_index k = None) props = props"
    by (induction props) auto
  ultimately show ?thesis by (simp add: object_entries_def)
qed

lemma known_categories_plain:
  assumes "c \<in> {''personal'', ''preference'', ''context'', ''fact''}"
  shows "c \<notin> set object_prototype_keys" and "array_index c = None"
  using assms
  by (auto simp: object_prototype_keys_def array_index_def is_digit_def code_def)

text \<open>
  Claim C8, amended. The empty list is rendered as the empty string. A non-empty list
  whose categories are among personal, preference, context and fact (a missing category
  counting as context) is rendered as the header followed by one headed section for each
  category that occurs, holding the memories of that category in their order; categories
  without memories have no section. The sections appear in the order in which the
  categories first occur in the list, not in a fixed order.
\<close>

theorem formatMemoriesForContext_first_occurrence_order:
  assumes "\<forall>m \<in> set memories. category_of m \<in> {''personal'', ''preference'', ''context'', ''fact''}"
  shows "formatMemoriesForContext [] = Inr []
    \<and> (memories \<noteq> [] \<longrightarrow>
         formatMemoriesForContext memories =
           Inr (trim (''## User Memory'' @ [newline, newline]
                  @ concat (map (\<lambda>c. format_section (c, filter (\<lambda>m. category_of m = c) memories))
                              (first_occurrences (map category_of memories))))))"
proof -
  from assms have proto: "\<forall>m \<in> set memories. category_of m \<notin> set object_prototype_keys"
    using known_categories_plain(1) by blast
  then have g: "group_memories [] memories = Inr (groups_of memories)"
    by (rule group_memories_groups_of)
  have "\<forall>k \<in> set (map fst (groups_of memories)). array_index k = None"
    using assms known_categories_plain(2)
    by (auto simp: groups_of_def set_first_occurrences)
  then have "object_entries (groups_of memories) = groups_of memories"
    by (rule object_entries_plain)
  with g show ?thesis
    by (simp add: formatMemoriesForContext_def groups_of_def comp_def)
qed

theorem formatMemoriesForContext_first_occurrence_order_witness:
  "formatMemoriesForContext
     [\<lparr> mem_id = ''id-1'', userId = ''u1'', chatId = None, category = ''preference'',
        key = ''editor'', mem_value = ''vim'', importance = ''8'', createdAt = 1, updatedAt = 1,
        lastAccessedAt = 1, accessCount = ''1'', metadata = None \<rparr>,
      \<lparr> mem_id = ''id-2'', userId = ''u1'', chatId = None, category = ''personal'',
        key = ''name'', mem_value = ''Alice'', importance = ''7'', createdAt = 2, updatedAt = 2,
        lastAccessedAt = 2, accessCount = ''1'', metadata = None \<rparr>,
      \<lparr> mem_id = ''id-3'', userId = ''u1'', chatId = None, category = ''preference'',
        key = ''theme'', mem_value = ''dark'', importance = ''6'', createdAt = 3, updatedAt = 3,
        lastAccessedAt = 3, accessCount = ''1'', metadata = None \<rparr>]
   = Inr (''## User Memory'' @ [newline, newline]
          @ ''### Preferences'' @ [newline] @ ''- editor: vim'' @ [newline] @ ''- theme: dark''
          @ [newline, newline]
          @ ''### Personal Information'' @ [newline] @ ''- name: Alice'')"
proof -
  define ms where "ms =
     [\<lparr> mem_id = ''id-1'', userId = ''u1'', chatId = None, category = ''preference'',
        key = ''editor'', mem_value = ''vim'', importance = ''8'', createdAt = 1, updatedAt = 1,
        lastAccessedAt = 1, accessCount = ''1'', metadata = None \<rparr>,
      \<lparr> mem_id = ''id-2'', userId = ''u1'', chatId = None, category = ''personal'',
        key = ''name'', mem_value = ''Alice'', importance = ''7'', createdAt = 2, updatedAt = 2,
        lastAccessedAt = 2, accessCount = ''1'', metadata = None \<rparr>,
      \<lparr> mem_id = ''id-3'', userId = ''u1'', chatId = None, category = ''preference'',
        key = ''theme'', mem_value = ''dark'', importance = ''6'', createdAt = 3, updatedAt = 3,
        lastAccessedAt = 3, accessCount = ''1'', metadata = None \<rparr>]"
  have h: "\<forall>m \<in> set ms. category_of m \<in> {''personal'', ''preference'', ''context'', ''fact''}"
    by (simp add: ms_def category_of_def)
  have ne: "ms \<noteq> []" by (simp add: ms_def)
  from formatMemoriesForContext_first_occurrence_order [OF h] ne
  have "formatMemoriesForContext ms =
           Inr (trim (''## User Memory'' @ [newline, newline]
                  @ concat (map (\<lambda>c. format_section (c, filter (\<lambda>m. category_of m = c) ms))
                              (first_occurrences (map category_of ms)))))"
    by blast
  then show ?thesis
    unfolding ms_def
    by (simp add: first_occurrences_def category_of_def format_section_def format_item_def
        title_of_def categoryTitles_def trim_def is_space_def code_def newline_def)
qed

text \<open>
  Claim C8, as stated, fails: for a fact followed by a personal memory the section
  \<open>Known Facts\<close> comes before \<open>Personal Information\<close>.
\<close>

theorem formatMemoriesForContext_order_follows_input:
  "formatMemoriesForContext
     [\<lparr> mem_id = ''id-1'', userId = ''u1'', chatId = None, category = ''fact'',
        key = ''city'', mem_value = ''Oslo'', importance = ''9'', createdAt = 1, updatedAt = 1,
        lastAccessedAt = 1, accessCount = ''1'', metadata = None \<rparr>,
      \<lparr> mem_id = ''id-2'', userId = ''u1'', chatId = None, category = ''personal'',
        key = ''name'', mem_value = ''Alice'', importance = ''7'', createdAt = 2, updatedAt = 2,
        lastAccessedAt = 2, accessCount = ''1'', metadata = None \<rparr>]
   = Inr (''## User Memory'' @ [newline, newline]
          @ ''### Known Facts'' @ [newline] @ ''- city: Oslo'' @ [newline, newline]
          @ ''### Personal Information'' @ [newline] @ ''- name: Alice'')"
  by code_simp

section \<open>Properties of memory extraction\<close>

lemma extract_rules_recorded:
  "extract_rules (\<lambda>req log. (if fails req then Inl (err req) else Inr (row req), log @ [req]))
      clock params n pats (saved, console, log)
    = (saved @ map row (filter (\<lambda>r. \<not> fails r) (rule_writes_from clock params n pats)),
       console @ map err (filter fails (rule_writes_from clock params n pats)),
       log @ rule_writes_from clock params n pats)"
  by (induction pats arbitrary: n saved console log) (auto split: option.splits)

lemma extract_rules_count:
  "(case extract_rules save clock params n pats (saved, console, st) of
      (saved', console', st') \<Rightarrow> length saved' + length console')
    = length saved + length console + length (rule_writes_from clock params n pats)"
proof (induction pats arbitrary: n saved console st)
  case Nil
  then show ?case by simp
next
  case (Cons pat pats)
  show ?case
  proof (cases "regex pat (x_userMessage params)")
    case None
    with Cons show ?thesis by simp
  next
    case (Some captured)
    show ?thesis
    proof (cases "captured = []")
      case True
      with Some Cons show ?thesis by simp
    next
      case False
      obtain res st' where s: "save (rule_write params (clock n) pat captured) st = (res, st')"
        by (cases "save (rule_write params (clock n) pat captured) st")
      with Some False Cons show ?thesis
        by (cases res) simp_all
    qed
  qed
qed

lemma rule_writes_from_fields:
  "map p_importance (rule_writes_from clock params n pats)
     = replicate (length (rule_writes_from clock params n pats)) (Some 7)
   \<and> map p_key (rule_writes_from clock params n pats)
     = map pat_key (filter (rule_matches (x_userMessage params)) pats)
   \<and> map p_category (rule_writes_from clock params n pats)
     = map pat_category (filter (rule_matches (x_userMessage params)) pats)
   \<and> map p_userId (rule_writes_from clock params n pats)
     = replicate (length (rule_writes_from clock params n pats)) (x_userId params)"
  by (induction pats arbitrary: n) (auto simp: rule_matches_def rule_write_def split: option.splits)

lemma rule_writes_from_aiResponse:
  "rule_writes_from clock (params\<lparr> x_aiResponse := other \<rparr>) n pats = rule_writes_from clock params n pats"
  by (induction pats arbitrary: n) (auto simp: rule_write_def split: option.splits)

text \<open>
  Claim C9. The rules are name, location, job and preference, in this order. Against a
  store that records every write request and fails on an arbitrary set of them, the
  extraction makes exactly one request for each rule matching the user message, in the
  order of the rules, whichever requests fail; it returns the rows of the requests that
  succeeded and logs the errors of the others. For every write path, the extraction
  returns, and the saved rows and the logged errors together number the matching rules.
  Each request carries the key and category of its rule, the importance 7 and the user
  of the turn, and none depends on the reply of the model.
\<close>

theorem extractMemoriesFromConversation_isolates_failures:
  "extractMemoriesFromConversation
      (\<lambda>req log. (if fails req then Inl (err req) else Inr (row req), log @ [req])) clock params []
    = (map row (filter (\<lambda>r. \<not> fails r) (rule_writes clock params)),
       map err (filter fails (rule_writes clock params)),
       rule_writes clock params)
   \<and> (case extractMemoriesFromConversation save clock params st of
        (saved, console, st') \<Rightarrow> length saved + length console) = length (rule_writes clock params)
   \<and> map p_key (rule_writes clock params)
       = map pat_key (filter (rule_matches (x_userMessage params)) patterns)
   \<and> map p_category (rule_writes clock params)
       = map pat_category (filter (rule_matches (x_userMessage params)) patterns)
   \<and> map p_importance (rule_writes clock params)
       = replicate (length (rule_writes clock params)) (Some 7)
   \<and> map p_userId (rule_writes clock params)
       = replicate (length (rule_writes clock params)) (x_userId params)
   \<and> rule_writes clock (params\<lparr> x_aiResponse := other \<rparr>) = rule_writes clock params
   \<and> map pat_key patterns = [''name'', ''location'', ''job'', ''preference'']"
proof -
  have a: "extractMemoriesFromConversation
      (\<lambda>req log. (if fails req then Inl (err req) else Inr (row req), log @ [req])) clock params []
    = (map row (filter (\<lambda>r. \<not> fails r) (rule_writes clock params)),
       map err (filter fails (rule_writes clock params)),
       rule_writes clock params)"
    unfolding extractMemoriesFromConversation_def rule_writes_def
    using extract_rules_recorded [of fails err row clock params 0 patterns "[]" "[]" "[]"] by simp
  have b: "(case extractMemoriesFromConversation save clock params st of
        (saved, console, st') \<Rightarrow> length saved + length console) = length (rule_writes clock params)"
    unfolding extractMemoriesFromConversation_def rule_writes_def
    using extract_rules_count [of save clock params 0 patterns "[]" "[]" st] by simp
  have c: "map pat_key patterns = [''name'', ''location'', ''job'', ''preference'']"
    by (simp add: patterns_def)
  from a b c rule_writes_from_fields [of clock params 0 patterns]
    rule_writes_from_aiResponse [of clock other params 0 patterns]
  show ?thesis
    unfolding rule_writes_def by simp
qed

text \<open>
  On the memory table: the row for \<open>name\<close> has an access counter that is not a number, so
  the write of the first rule fails; the write of the second rule still inserts \<open>location\<close>.
\<close>

theorem extractMemoriesFromConversation_isolates_failures_witness:
  "extractMemoriesFromConversation (saveMemory_on (\<lambda>k. 100 + k) (\<lambda>k. ''new-'' @ show_nat k))
     (\<lambda>n. 100 + n)
     \<lparr> x_userId = ''u1'', x_chatId = ''c1'',
       x_userMessage = ''Hi, my name is Alice and I live in Oslo!'', x_aiResponse = ''Hello Alice'' \<rparr>
     (0, [\<lparr> mem_id = ''id-1'', userId = ''u1'', chatId = None, category = ''personal'',
           key = ''name'', mem_value = ''Al'', importance = ''7'', createdAt = 1, updatedAt = 1,
           lastAccessedAt = 1, accessCount = ''many'', metadata = None \<rparr>])
    = ([Some \<lparr> mem_id = ''new-1'', userId = ''u1'', chatId = Some ''c1'', category = ''personal'',
               key = ''location'', mem_value = ''Oslo'', importance = ''7'', createdAt = 101,
               updatedAt = 101, lastAccessedAt = 101, accessCount = ''1'',
               metadata = Some [(''extractedFrom'', MStr ''conversation''), (''timestamp'', MIso 101)] \<rparr>],
       [InvalidIntegerSyntax ''many''],
       2,
       [\<lparr> mem_id = ''id-1'', userId = ''u1'', chatId = None, category = ''personal'',
          key = ''name'', mem_value = ''Al'', importance = ''7'', createdAt = 1, updatedAt = 1,
          lastAccessedAt = 1, accessCount = ''many'', metadata = None \<rparr>,
        \<lparr> mem_id = ''new-1'', userId = ''u1'', chatId = Some ''c1'', category = ''personal'',
          key = ''location'', mem_value = ''Oslo'', importance = ''7'', createdAt = 101,
          updatedAt = 101, lastAccessedAt = 101, accessCount = ''1'',
          metadata = Some [(''extractedFrom'', MStr ''conversation''), (''timestamp'', MIso 101)] \<rparr>])
   \<and> map p_key (rule_writes (\<lambda>n. 100 + n)
          \<lparr> x_userId = ''u1'', x_chatId = ''c1'',
            x_userMessage = ''Hi, my name is Alice and I live in Oslo!'', x_aiResponse = ''Hello Alice'' \<rparr>)
      = [''name'', ''location'']"
proof -
  define params where "params = \<lparr> x_userId = ''u1'', x_chatId = ''c1'',
       x_userMessage = ''Hi, my name is Alice and I live in Oslo!'', x_aiResponse = ''Hello Alice'' \<rparr>"
  have run: "extractMemoriesFromConversation (saveMemory_on (\<lambda>k. 100 + k) (\<lambda>k. ''new-'' @ show_nat k))
     (\<lambda>n. 100 + n) params
     (0, [\<lparr> mem_id = ''id-1'', userId = ''u1'', chatId = None, category = ''personal'',
           key = ''name'', mem_value = ''Al'', importance = ''7'', createdAt = 1, updatedAt = 1,
           lastAccessedAt = 1, accessCount = ''many'', metadata = None \<rparr>])
    = ([Some \<lparr> mem_id = ''new-1'', userId = ''u1'', chatId = Some ''c1'', category = ''personal'',
               key = ''location'', mem_value = ''Oslo'', importance = ''7'', createdAt = 101,
               updatedAt = 101, lastAccessedAt = 101, accessCount = ''1'',
               metadata = Some [(''extractedFrom'', MStr ''conversation''), (''timestamp'', MIso 101)] \<rparr>],
       [InvalidIntegerSyntax ''many''],
       2,
       [\<lparr> mem_id = ''id-1'', userId = ''u1'', chatId = None, category = ''personal'',
          key = ''name'', mem_value = ''Al'', importance = ''7'', createdAt = 1, updatedAt = 1,
          lastAccessedAt = 1, accessCount = ''many'', metadata = None \<rparr>,
        \<lparr> mem_id = ''new-1'', userId = ''u1'', chatId = Some ''c1'', category = ''personal'',
          key = ''location'', mem_value = ''Oslo'', importance = ''7'', createdAt = 101,
          updatedAt = 101, lastAccessedAt = 101, accessCount = ''1'',
          metadata = Some [(''extractedFrom'', MStr ''conversation''), (''timestamp'', MIso 101)] \<rparr>])"
    unfolding params_def by code_simp
  have matched: "map pat_key (filter (rule_matches (x_userMessage params)) patterns)
                   = [''name'', ''location'']"
    unfolding params_def by code_simp
  have "map p_key (rule_writes (\<lambda>n. 100 + n) params)
          = map pat_key (filter (rule_matches (x_userMessage params)) patterns)"
    by (rule extractMemoriesFromConversation_isolates_failures
          [THEN conjunct2, THEN conjunct2, THEN conjunct1])
  with matched have "map p_key (rule_writes (\<lambda>n. 100 + n) params) = [''name'', ''location'']"
    by simp
  with run show ?thesis
    unfolding params_def by simp
qed

end
